theory Spec2Isabelle
  imports Complex_Main "HOL-Library.Sublist"
begin

section \<open>Strings and character classes\<close>

text \<open>
  The reply text \<open>ai_output\<close> of \<open>evaluate_argument\<close> (src/app.py, line 119: the stripped
  text of the model's response) is a Python \<open>str\<close>, a sequence of code points.  It is
  modelled as a \<open>string\<close>, every \<open>char\<close> standing for one code point in the range 0..255.
  On that range the two character classes of the patterns are the ones below: \<open>\s\<close> in a
  \<open>str\<close> pattern and the argument-less \<open>str.strip()\<close> both use the interpreter's whitespace
  test, and \<open>\d\<close> is the decimal-digit test, which below code point 256 holds of
  \<open>0\<close>..\<open>9\<close> only.
\<close>

definition isspace :: "char \<Rightarrow> bool" where
  "isspace c \<longleftrightarrow> c \<in> set [CHR 0x09, CHR 0x0A, CHR 0x0B, CHR 0x0C, CHR 0x0D,
                        CHR 0x1C, CHR 0x1D, CHR 0x1E, CHR 0x1F, CHR 0x20,
                        CHR 0x85, CHR 0xA0]"

definition isdecimal :: "char \<Rightarrow> bool" where
  "isdecimal c \<longleftrightarrow> c \<in> set ''0123456789''"

text \<open>\<open>str.strip()\<close>: leading and trailing whitespace removed.\<close>

definition strip :: "string \<Rightarrow> string" where
  "strip s = rev (dropWhile isspace (rev (dropWhile isspace s)))"

section \<open>Regular expressions as \<open>re\<close> runs them\<close>

text \<open>
  The constructs that occur in the four patterns of \<open>evaluate_argument\<close>: a one-character
  item (a literal character, \<open>\d\<close>, \<open>\s\<close>, or \<open>.\<close> under \<open>re.DOTALL\<close>) given by its test,
  the empty pattern, concatenation, alternation \<open>|\<close>, the greedy star \<open>*\<close>, the lazy star
  \<open>*?\<close>, the capturing group (every pattern has exactly one, group 1), the positive
  lookahead \<open>(?=...)\<close> and the end anchor \<open>\Z\<close>.
\<close>

datatype regex =
    Sym "char \<Rightarrow> bool"
  | Empty
  | Cat regex regex
  | Alt regex regex
  | Star regex
  | Lazy regex
  | Grp regex
  | Ahead regex
  | EndZ

text \<open>
  A matcher state is the input still to be read and the text of group 1, if the group has
  taken part in the match so far.
\<close>

type_synonym mstate = "string \<times> string option"

text \<open>
  \<open>rmatch r st\<close> lists the states in which a match of \<open>r\<close> started in \<open>st\<close> can end, in the
  order in which the backtracking matcher tries them: the left branch of \<open>|\<close> before the
  right one, more iterations of \<open>*\<close> before fewer, fewer iterations of \<open>*?\<close> before more.
  An iteration of a star that reads nothing is not repeated.
\<close>

function rmatch :: "regex \<Rightarrow> mstate \<Rightarrow> mstate list" where
  "rmatch (Sym P) (s, g) = (case s of [] \<Rightarrow> [] | c # cs \<Rightarrow> if P c then [(cs, g)] else [])"
| "rmatch Empty st = [st]"
| "rmatch (Cat r1 r2) st = concat (map (rmatch r2) (rmatch r1 st))"
| "rmatch (Alt r1 r2) st = rmatch r1 st @ rmatch r2 st"
| "rmatch (Star r) (s, g) =
     concat (map (rmatch (Star r)) (filter (\<lambda>st'. length (fst st') < length s) (rmatch r (s, g))))
     @ [(s, g)]"
| "rmatch (Lazy r) (s, g) =
     (s, g) #
     concat (map (rmatch (Lazy r)) (filter (\<lambda>st'. length (fst st') < length s) (rmatch r (s, g))))"
| "rmatch (Grp r) (s, g) =
     map (\<lambda>st'. (fst st', Some (take (length s - length (fst st')) s))) (rmatch r (s, g))"
| "rmatch (Ahead r) (s, g) = (case rmatch r (s, g) of [] \<Rightarrow> [] | st' # _ \<Rightarrow> [(s, snd st')])"
| "rmatch EndZ (s, g) = (if s = [] then [(s, g)] else [])"
  by pat_completeness auto
termination
  by (relation "measures [\<lambda>(r, st). size r, \<lambda>(r, st). length (fst st)]") auto

text \<open>
  \<open>re.search(pattern, s)\<close>: the first match found scanning the start position from left to
  right, the end of the input included; \<open>None\<close> when no position matches.  None of the
  patterns looks behind, so the text before the start position is dropped.
\<close>

fun search :: "regex \<Rightarrow> string \<Rightarrow> mstate option" where
  "search r [] = (case rmatch r ([], None) of [] \<Rightarrow> None | st # _ \<Rightarrow> Some st)"
| "search r (c # cs) = (case rmatch r (c # cs, None) of [] \<Rightarrow> search r cs | st # _ \<Rightarrow> Some st)"

text \<open>A literal string, \<open>+\<close> as one iteration followed by \<open>*\<close>, and a sequence of items.\<close>

fun lit :: "string \<Rightarrow> regex" where
  "lit [] = Empty"
| "lit (c # cs) = Cat (Sym ((=) c)) (lit cs)"

definition Many1 :: "regex \<Rightarrow> regex" where
  "Many1 r = Cat r (Star r)"

fun seq :: "regex list \<Rightarrow> regex" where
  "seq [] = Empty"
| "seq [r] = r"
| "seq (r # rs) = Cat r (seq rs)"

definition digit :: regex where
  "digit = Sym isdecimal"

definition space :: regex where
  "space = Sym isspace"

definition anychar :: regex where
  "anychar = Sym (\<lambda>_. True)"

text \<open>\<open>m.group(1)\<close> of a match object: \<open>None\<close> if group 1 took no part in the match.\<close>

definition group1 :: "mstate \<Rightarrow> string option" where
  "group1 m = snd m"

section \<open>The number read by \<open>float\<close>\<close>

text \<open>
  \<open>py_float\<close> is \<open>float(t)\<close> on the strings \<open>digits\<close> and \<open>digits.digits\<close>.  The result is the
  exact value of the decimal numeral; \<open>float\<close> returns the double nearest to it (infinity
  beyond the range of the doubles), so equal values give equal doubles, and the order of
  two values is kept, weakly, by the rounding; 0, 0.5 and 1 are doubles.  On every other
  string \<open>py_float\<close> answers \<open>None\<close>, which \<open>score_field\<close> below turns into the \<open>ValueError\<close>
  that \<open>float\<close> raises on a string it cannot read.  \<open>float\<close> itself reads more strings than
  these (signs, exponents, \<open>inf\<close>), but group 1 of the score pattern never holds one of
  them: see \<open>py_float_numeric_token\<close>.
\<close>

definition digit_val :: "char \<Rightarrow> nat" where
  "digit_val c = of_char c - 48"

definition decimal_value :: "string \<Rightarrow> nat" where
  "decimal_value ds = foldl (\<lambda>a c. 10 * a + digit_val c) 0 ds"

definition py_float :: "string \<Rightarrow> rat option" where
  "py_float t =
     (let ip = takeWhile isdecimal t; rest = dropWhile isdecimal t in
      if ip = [] then None
      else case rest of
        [] \<Rightarrow> Some (of_nat (decimal_value ip))
      | c # fp \<Rightarrow>
          if c = CHR ''.'' \<and> fp \<noteq> [] \<and> list_all isdecimal fp
          then Some (of_nat (decimal_value ip) + of_nat (decimal_value fp) / 10 ^ length fp)
          else None)"

section \<open>The extraction of \<open>evaluate_argument\<close>\<close>

text \<open>
  Lines 122 to 135 of src/app.py, as a function of \<open>ai_output\<close>.  The four fields are the
  four values handed to \<open>jsonify\<close>.  Every exception raised in the block is caught by the
  handler and answered with status 500, so an exception is the \<open>Inl\<close> result here:
  \<open>float(None)\<close> is a \<open>TypeError\<close>, \<open>float\<close> of an unreadable string a \<open>ValueError\<close>, and
  \<open>None.strip()\<close> an \<open>AttributeError\<close>.
\<close>

datatype error = TypeError | ValueError | AttributeError

record structured_feedback =
  rationality_score :: rat
  reason_for_score :: string
  feedback :: string
  improved_argument :: string

definition score_marker :: string where
  "score_marker = ''**Rationality Score:**''"

definition reasoning_marker :: string where
  "reasoning_marker = ''**Reasoning for Score:**''"

definition feedback_marker :: string where
  "feedback_marker = ''**Feedback:**''"

definition improved_marker :: string where
  "improved_marker = ''**Improved Argument:**''"

text \<open>\<open>r"\*\*Rationality Score:\*\* (\d+\.\d+|\d+)"\<close>\<close>

definition rationality_score_re :: regex where
  "rationality_score_re =
     seq [lit score_marker, lit '' '',
          Grp (Alt (seq [Many1 digit, lit ''.'', Many1 digit]) (Many1 digit))]"

text \<open>\<open>r"\*\*Reasoning for Score:\*\*\s*(.*?)(?=\*\*Feedback:\*\*|\Z)"\<close> with \<open>re.DOTALL\<close>\<close>

definition reasoning_re :: regex where
  "reasoning_re =
     seq [lit reasoning_marker, Star space, Grp (Lazy anychar),
          Ahead (Alt (lit feedback_marker) EndZ)]"

text \<open>\<open>r"\*\*Feedback:\*\*\s*(.*?)(?=\*\*Improved Argument:\*\*|\Z)"\<close> with \<open>re.DOTALL\<close>\<close>

definition feedback_re :: regex where
  "feedback_re =
     seq [lit feedback_marker, Star space, Grp (Lazy anychar),
          Ahead (Alt (lit improved_marker) EndZ)]"

text \<open>\<open>r"\*\*Improved Argument:\*\*\s*(.*)"\<close> with \<open>re.DOTALL\<close>\<close>

definition improved_argument_re :: regex where
  "improved_argument_re = seq [lit improved_marker, Star space, Grp (Star anychar)]"

text \<open>\<open>float(m.group(1)) if m else 0.5\<close>\<close>

definition score_field :: "string \<Rightarrow> error + rat" where
  "score_field ai_output =
     (case search rationality_score_re ai_output of
        None \<Rightarrow> Inr (1 / 2)
      | Some m \<Rightarrow>
          (case group1 m of
             None \<Rightarrow> Inl TypeError
           | Some t \<Rightarrow> (case py_float t of None \<Rightarrow> Inl ValueError | Some x \<Rightarrow> Inr x)))"

text \<open>\<open>m.group(1).strip() if m else default\<close>\<close>

definition text_field :: "regex \<Rightarrow> string \<Rightarrow> string \<Rightarrow> error + string" where
  "text_field pattern dflt ai_output =
     (case search pattern ai_output of
        None \<Rightarrow> Inr dflt
      | Some m \<Rightarrow>
          (case group1 m of None \<Rightarrow> Inl AttributeError | Some t \<Rightarrow> Inr (strip t)))"

definition evaluate_argument :: "string \<Rightarrow> error + structured_feedback" where
  "evaluate_argument ai_output =
     (case score_field ai_output of
        Inl e \<Rightarrow> Inl e
      | Inr sc \<Rightarrow>
     (case text_field reasoning_re ''No reasoning provided.'' ai_output of
        Inl e \<Rightarrow> Inl e
      | Inr rs \<Rightarrow>
     (case text_field feedback_re ''No feedback provided.'' ai_output of
        Inl e \<Rightarrow> Inl e
      | Inr fb \<Rightarrow>
     (case text_field improved_argument_re ''No improved argument provided.'' ai_output of
        Inl e \<Rightarrow> Inl e
      | Inr ia \<Rightarrow>
          Inr \<lparr>rationality_score = sc, reason_for_score = rs,
               feedback = fb, improved_argument = ia\<rparr>))))"

section \<open>Ordered substring search\<close>

text \<open>
  The vocabulary in which the results of the patterns are stated: the text after the first
  occurrence of a marker (\<open>None\<close> if the marker does not occur), the text before the first
  occurrence of a marker (the whole text if it does not occur), and the number of positions
  at which a marker occurs.
\<close>

fun after_first :: "string \<Rightarrow> string \<Rightarrow> string option" where
  "after_first m [] = (if m = [] then Some [] else None)"
| "after_first m (c # cs) =
     (if prefix m (c # cs) then Some (drop (length m) (c # cs)) else after_first m cs)"

fun before_first :: "string \<Rightarrow> string \<Rightarrow> string" where
  "before_first m [] = []"
| "before_first m (c # cs) = (if prefix m (c # cs) then [] else c # before_first m cs)"

fun occurrences :: "string \<Rightarrow> string \<Rightarrow> nat" where
  "occurrences m [] = (if m = [] then 1 else 0)"
| "occurrences m (c # cs) = (if prefix m (c # cs) then 1 else 0) + occurrences m cs"

text \<open>
  The decimal numeral at the start of a text: its leading digits, and the fraction after
  them when a dot and at least one digit follow; empty when the text does not start with a
  digit.
\<close>

definition numeric_token :: "string \<Rightarrow> string" where
  "numeric_token s =
     (let ip = takeWhile isdecimal s in
      if ip = [] then []
      else case dropWhile isdecimal s of
        c # d # r \<Rightarrow>
          if c = CHR ''.'' \<and> isdecimal d then ip @ c # takeWhile isdecimal (d # r) else ip
      | _ \<Rightarrow> ip)"

text \<open>
  The numeral after the first occurrence of the score marker that is followed by one space
  and a digit.
\<close>

fun find_score :: "string \<Rightarrow> string option" where
  "find_score [] = None"
| "find_score (c # cs) =
     (if prefix (score_marker @ '' '') (c # cs) \<and>
         numeric_token (drop (length (score_marker @ '' '')) (c # cs)) \<noteq> []
      then Some (numeric_token (drop (length (score_marker @ '' '')) (c # cs)))
      else find_score cs)"

text \<open>The shapes shared by the patterns, with the markers as parameters.\<close>

definition section_re :: "string \<Rightarrow> string \<Rightarrow> regex" where
  "section_re m t = seq [lit m, Star space, Grp (Lazy anychar), Ahead (Alt (lit t) EndZ)]"

definition tail_re :: "string \<Rightarrow> regex" where
  "tail_re m = seq [lit m, Star space, Grp (Star anychar)]"

definition number_re :: regex where
  "number_re = Grp (Alt (seq [Many1 digit, lit ''.'', Many1 digit]) (Many1 digit))"

section \<open>What the matcher returns on the four patterns\<close>

text \<open>
  The first state of \<open>rmatch\<close> on each construct and on each pattern, and from it the
  result of \<open>search\<close>: a text pattern matches at the first occurrence of its marker, the
  score pattern at the first occurrence of its marker that is followed by one space and a
  digit.
\<close>

lemma rmatch_lit: "rmatch (lit m) (s, g) = (if prefix m s then [(drop (length m) s, g)] else [])"
proof (induction m arbitrary: s)
  case Nil
  show ?case by simp
next
  case (Cons c m)
  show ?case
  proof (cases s)
    case Nil
    then show ?thesis by simp
  next
    case (Cons x xs)
    then show ?thesis using Cons.IH [of xs] by auto
  qed
qed

lemma rmatch_cat_first:
  "rmatch r1 st = a # as \<Longrightarrow> rmatch r2 a = x # xs \<Longrightarrow> \<exists>rest. rmatch (Cat r1 r2) st = x # rest"
  by simp

lemma rmatch_star_sym:
  "\<exists>rest. rmatch (Star (Sym P)) (s, g) = (dropWhile P s, g) # rest \<and>
          (\<forall>st \<in> set rest. \<exists>c cs. fst st = c # cs \<and> P c)"
proof (induction s)
  case Nil
  show ?case by simp
next
  case (Cons c cs)
  show ?case
  proof (cases "P c")
    case True
    from Cons.IH obtain rest where
      r: "rmatch (Star (Sym P)) (cs, g) = (dropWhile P cs, g) # rest"
         "\<forall>st \<in> set rest. \<exists>c cs. fst st = c # cs \<and> P c" by blast
    have "rmatch (Star (Sym P)) (c # cs, g) = (dropWhile P cs, g) # (rest @ [(c # cs, g)])"
      using True r(1) by simp
    then show ?thesis using True r(2) by auto
  next
    case False
    then show ?thesis by simp
  qed
qed

lemma rmatch_lazy_any_Cons:
  "rmatch (Lazy anychar) (c # cs, g) = (c # cs, g) # rmatch (Lazy anychar) (cs, g)"
  by (simp add: anychar_def)

lemma rmatch_lazy_any_Nil: "rmatch (Lazy anychar) ([], g) = [([], g)]"
  by (simp add: anychar_def)

lemma rmatch_ahead_next:
  "rmatch (Ahead (Alt (lit t) EndZ)) (s, g) = (if prefix t s \<or> s = [] then [(s, g)] else [])"
  by (simp add: rmatch_lit)

lemma lazy_then_ahead:
  "\<exists>s' rest.
     concat (map (rmatch (Ahead (Alt (lit t) EndZ)))
       (map (\<lambda>st'. (fst st', Some (take (length (pre @ s) - length (fst st')) (pre @ s))))
            (rmatch (Lazy anychar) (s, g))))
     = (s', Some (pre @ before_first t s)) # rest"
proof (induction s arbitrary: pre)
  case Nil
  show ?case by (simp add: rmatch_lazy_any_Nil rmatch_ahead_next del: rmatch.simps)
next
  case (Cons c cs)
  show ?case
  proof (cases "prefix t (c # cs)")
    case True
    then show ?thesis
      by (simp add: rmatch_lazy_any_Cons rmatch_ahead_next del: rmatch.simps)
  next
    case False
    from Cons.IH [of "pre @ [c]"] False show ?thesis
      by (simp add: rmatch_lazy_any_Cons rmatch_ahead_next del: rmatch.simps)
  qed
qed

lemma rmatch_group_lazy_ahead:
  "\<exists>s' rest. rmatch (Cat (Grp (Lazy anychar)) (Ahead (Alt (lit t) EndZ))) (s, g)
     = (s', Some (before_first t s)) # rest"
  using lazy_then_ahead [of t "[]" s g] by (simp del: rmatch.simps(5,6,8) add: comp_def)

lemma rmatch_section_re:
  "prefix m s \<Longrightarrow> \<exists>s' rest. rmatch (section_re m t) (s, g)
     = (s', Some (before_first t (dropWhile isspace (drop (length m) s)))) # rest"
proof -
  assume p: "prefix m s"
  obtain r1 where r1: "rmatch (Star space) (drop (length m) s, g)
      = (dropWhile isspace (drop (length m) s), g) # r1"
    using rmatch_star_sym [of isspace "drop (length m) s" g] unfolding space_def by blast
  obtain s' r2 where r2:
    "rmatch (Cat (Grp (Lazy anychar)) (Ahead (Alt (lit t) EndZ)))
       (dropWhile isspace (drop (length m) s), g)
     = (s', Some (before_first t (dropWhile isspace (drop (length m) s)))) # r2"
    using rmatch_group_lazy_ahead by blast
  have "rmatch (section_re m t) (s, g) =
     rmatch (Cat (Star space) (Cat (Grp (Lazy anychar)) (Ahead (Alt (lit t) EndZ))))
       (drop (length m) s, g)"
    unfolding section_re_def using p by (simp add: rmatch_lit del: rmatch.simps(5,6,7,8))
  moreover have "\<exists>rest. rmatch (Cat (Star space) (Cat (Grp (Lazy anychar)) (Ahead (Alt (lit t) EndZ))))
       (drop (length m) s, g) = (s', Some (before_first t (dropWhile isspace (drop (length m) s)))) # rest"
    using rmatch_cat_first [OF r1 r2] .
  ultimately show ?thesis by auto
qed

lemma rmatch_section_re_nil: "\<not> prefix m s \<Longrightarrow> rmatch (section_re m t) (s, g) = []"
  unfolding section_re_def by (simp add: rmatch_lit del: rmatch.simps(5,6,7,8))

lemma rmatch_tail_re:
  "prefix m s \<Longrightarrow> \<exists>s' rest. rmatch (tail_re m) (s, g)
     = (s', Some (dropWhile isspace (drop (length m) s))) # rest"
proof -
  assume p: "prefix m s"
  let ?s1 = "dropWhile isspace (drop (length m) s)"
  obtain r1 where r1: "rmatch (Star space) (drop (length m) s, g) = (?s1, g) # r1"
    using rmatch_star_sym [of isspace "drop (length m) s" g] unfolding space_def by blast
  obtain r2 where "rmatch (Star anychar) (?s1, g) = (dropWhile (\<lambda>_. True) ?s1, g) # r2"
    using rmatch_star_sym [of "\<lambda>_. True" ?s1 g] unfolding anychar_def by blast
  then have "rmatch (Star anychar) (?s1, g) = ([], g) # r2" by simp
  then have r2: "rmatch (Grp (Star anychar)) (?s1, g)
      = ([], Some ?s1) # map (\<lambda>st'. (fst st', Some (take (length ?s1 - length (fst st')) ?s1))) r2"
    by (simp del: rmatch.simps(5))
  have "rmatch (tail_re m) (s, g) = rmatch (Cat (Star space) (Grp (Star anychar))) (drop (length m) s, g)"
    unfolding tail_re_def using p by (simp add: rmatch_lit del: rmatch.simps(5,6,7,8))
  moreover have "\<exists>rest. rmatch (Cat (Star space) (Grp (Star anychar))) (drop (length m) s, g)
      = ([], Some ?s1) # rest"
    using rmatch_cat_first [OF r1 r2] .
  ultimately show ?thesis by auto
qed

lemma rmatch_tail_re_nil: "\<not> prefix m s \<Longrightarrow> rmatch (tail_re m) (s, g) = []"
  unfolding tail_re_def by (simp add: rmatch_lit del: rmatch.simps(5,6,7,8))

lemma search_marker:
  assumes hit: "\<And>s'. prefix m s' \<Longrightarrow>
                  \<exists>x rest. rmatch r (s', None) = (x, Some (f (drop (length m) s'))) # rest"
    and miss: "\<And>s'. \<not> prefix m s' \<Longrightarrow> rmatch r (s', None) = []"
  shows "map_option group1 (search r s) = map_option (\<lambda>q. Some (f q)) (after_first m s)"
proof (induction s)
  case Nil
  show ?case
  proof (cases "m = []")
    case True
    with hit [of "[]"] show ?thesis by (auto simp: group1_def)
  next
    case False
    with miss [of "[]"] show ?thesis by simp
  qed
next
  case (Cons c cs)
  show ?case
  proof (cases "prefix m (c # cs)")
    case True
    with hit [of "c # cs"] show ?thesis by (auto simp: group1_def)
  next
    case False
    with miss [of "c # cs"] Cons.IH show ?thesis by simp
  qed
qed

lemma strip_dropWhile: "strip (dropWhile isspace s) = strip s"
  by (simp add: strip_def)

lemma before_first_dropWhile:
  assumes "t \<noteq> []" "\<not> isspace (hd t)"
  shows "before_first t (dropWhile isspace s) = dropWhile isspace (before_first t s)"
proof (induction s)
  case Nil
  show ?case by simp
next
  case (Cons c cs)
  show ?case
  proof (cases "prefix t (c # cs)")
    case True
    with assms have "\<not> isspace c" by (cases t) auto
    with True show ?thesis by simp
  next
    case False
    with Cons.IH show ?thesis by simp
  qed
qed

lemma text_field_section:
  assumes "t \<noteq> []" "\<not> isspace (hd t)"
  shows "text_field (section_re m t) d s =
     Inr (case after_first m s of None \<Rightarrow> d | Some q \<Rightarrow> strip (before_first t q))"
proof -
  have "map_option group1 (search (section_re m t) s) =
        map_option (\<lambda>q. Some (before_first t (dropWhile isspace q))) (after_first m s)"
    by (rule search_marker) (use rmatch_section_re rmatch_section_re_nil in blast)+
  then show ?thesis
    unfolding text_field_def
    by (cases "search (section_re m t) s"; cases "after_first m s")
       (auto simp: before_first_dropWhile [OF assms] strip_dropWhile)
qed

lemma text_field_tail:
  "text_field (tail_re m) d s = Inr (case after_first m s of None \<Rightarrow> d | Some q \<Rightarrow> strip q)"
proof -
  have "map_option group1 (search (tail_re m) s) =
        map_option (\<lambda>q. Some (dropWhile isspace q)) (after_first m s)"
    by (rule search_marker) (use rmatch_tail_re rmatch_tail_re_nil in blast)+
  then show ?thesis
    unfolding text_field_def
    by (cases "search (tail_re m) s"; cases "after_first m s") (auto simp: strip_dropWhile)
qed

lemma reasoning_re_section: "reasoning_re = section_re reasoning_marker feedback_marker"
  by (simp add: reasoning_re_def section_re_def)

lemma feedback_re_section: "feedback_re = section_re feedback_marker improved_marker"
  by (simp add: feedback_re_def section_re_def)

lemma improved_argument_re_tail: "improved_argument_re = tail_re improved_marker"
  by (simp add: improved_argument_re_def tail_re_def)

lemma reason_for_score_field:
  "text_field reasoning_re d s =
     Inr (case after_first reasoning_marker s of None \<Rightarrow> d
          | Some q \<Rightarrow> strip (before_first feedback_marker q))"
  unfolding reasoning_re_section
  by (rule text_field_section) (simp_all add: feedback_marker_def isspace_def)

lemma feedback_field:
  "text_field feedback_re d s =
     Inr (case after_first feedback_marker s of None \<Rightarrow> d
          | Some q \<Rightarrow> strip (before_first improved_marker q))"
  unfolding feedback_re_section
  by (rule text_field_section) (simp_all add: improved_marker_def isspace_def)

lemma improved_argument_field:
  "text_field improved_argument_re d s =
     Inr (case after_first improved_marker s of None \<Rightarrow> d | Some q \<Rightarrow> strip q)"
  unfolding improved_argument_re_tail by (rule text_field_tail)

lemma take_diff_append: "take (length (a @ b) - length b) (a @ b) = a"
  by simp

lemma rmatch_many1_sym_nil:
  "s = [] \<or> \<not> P (hd s) \<Longrightarrow> rmatch (Many1 (Sym P)) (s, g) = []"
  by (cases s) (auto simp: Many1_def simp del: rmatch.simps(5))

lemma rmatch_many1_sym:
  assumes "s \<noteq> []" "P (hd s)"
  shows "\<exists>rest. rmatch (Many1 (Sym P)) (s, g) = (dropWhile P s, g) # rest \<and>
          (\<forall>st \<in> set rest. \<exists>c cs. fst st = c # cs \<and> P c)"
proof -
  from assms obtain c cs where s: "s = c # cs" "P c" by (cases s) auto
  then have "rmatch (Many1 (Sym P)) (s, g) = rmatch (Star (Sym P)) (cs, g)"
    by (simp add: Many1_def del: rmatch.simps(5))
  with rmatch_star_sym [of P cs g] s show ?thesis by simp
qed

lemma rmatch_dot_digits_nil:
  "\<not> (\<exists>d r. s = CHR ''.'' # d # r \<and> isdecimal d) \<Longrightarrow>
   rmatch (Cat (lit ''.'') (Many1 digit)) (s, g) = []"
proof (cases "prefix ''.'' s")
  case False
  then show ?thesis by (simp add: rmatch_lit del: rmatch.simps(5) lit.simps)
next
  case True
  assume n: "\<not> (\<exists>d r. s = CHR ''.'' # d # r \<and> isdecimal d)"
  from True obtain r where s: "s = CHR ''.'' # r" by (cases s) auto
  with n have "r = [] \<or> \<not> isdecimal (hd r)" by (cases r) auto
  then have "rmatch (Many1 digit) (r, g) = []"
    unfolding digit_def by (rule rmatch_many1_sym_nil)
  then show ?thesis using s by (simp add: rmatch_lit del: rmatch.simps(5) lit.simps)
qed

lemma rmatch_dot_digits:
  assumes "isdecimal d"
  shows "\<exists>rest. rmatch (Cat (lit ''.'') (Many1 digit)) (CHR ''.'' # d # r, g)
           = (dropWhile isdecimal (d # r), g) # rest"
proof -
  have "rmatch (Cat (lit ''.'') (Many1 digit)) (CHR ''.'' # d # r, g)
        = rmatch (Many1 digit) (d # r, g)"
    by (simp add: rmatch_lit del: rmatch.simps(5) lit.simps)
  with rmatch_many1_sym [of "d # r" isdecimal g] assms show ?thesis
    unfolding digit_def by auto
qed

lemma concat_map_all_nil: "\<forall>x \<in> set xs. f x = [] \<Longrightarrow> concat (map f xs) = []"
  by (induction xs) auto

lemma rmatch_decimal_alt:
  assumes "s \<noteq> []" "isdecimal (hd s)"
  shows "rmatch (seq [Many1 digit, lit ''.'', Many1 digit]) (s, g)
         = rmatch (Cat (lit ''.'') (Many1 digit)) (dropWhile isdecimal s, g)"
proof -
  obtain rest where r: "rmatch (Many1 digit) (s, g) = (dropWhile isdecimal s, g) # rest"
      "\<forall>st \<in> set rest. \<exists>c cs. fst st = c # cs \<and> isdecimal c"
    using rmatch_many1_sym [of s isdecimal g] assms unfolding digit_def by blast
  have "\<forall>st \<in> set rest. rmatch (Cat (lit ''.'') (Many1 digit)) st = []"
  proof
    fix st assume "st \<in> set rest"
    with r(2) obtain c cs where c: "fst st = c # cs" "isdecimal c" by blast
    then have "c \<noteq> CHR ''.''" by (auto simp: isdecimal_def)
    with c(1) have "\<not> (\<exists>d r. fst st = CHR ''.'' # d # r \<and> isdecimal d)" by auto
    then have "rmatch (Cat (lit ''.'') (Many1 digit)) (fst st, snd st) = []"
      by (rule rmatch_dot_digits_nil)
    then show "rmatch (Cat (lit ''.'') (Many1 digit)) st = []" by simp
  qed
  then have "concat (map (rmatch (Cat (lit ''.'') (Many1 digit))) rest) = []"
    by (rule concat_map_all_nil)
  then show ?thesis using r(1) by (simp del: rmatch.simps(5) lit.simps)
qed

lemma rmatch_number_re_nil:
  assumes "numeric_token s = []"
  shows "rmatch number_re (s, g) = []"
proof -
  from assms have "takeWhile isdecimal s = []"
    by (auto simp: numeric_token_def Let_def split: if_splits list.splits)
  then have n: "s = [] \<or> \<not> isdecimal (hd s)" by (cases s) (auto split: if_splits)
  then have m: "rmatch (Many1 digit) (s, g) = []"
    unfolding digit_def by (rule rmatch_many1_sym_nil)
  then have "rmatch (seq [Many1 digit, lit ''.'', Many1 digit]) (s, g) = []"
    by (simp del: rmatch.simps(5) lit.simps)
  with m show ?thesis unfolding number_re_def by (simp del: rmatch.simps(3,5) lit.simps seq.simps)
qed

lemma rmatch_number_re:
  assumes "numeric_token s \<noteq> []"
  shows "\<exists>rest. rmatch number_re (s, g)
           = (drop (length (numeric_token s)) s, Some (numeric_token s)) # rest"
proof -
  let ?ip = "takeWhile isdecimal s" and ?rs = "dropWhile isdecimal s"
  from assms have ip: "?ip \<noteq> []" by (auto simp: numeric_token_def Let_def)
  then have s: "s \<noteq> []" "isdecimal (hd s)" by (cases s; auto split: if_splits)+
  obtain r2 where r2: "rmatch (Many1 digit) (s, g) = (?rs, g) # r2"
    using rmatch_many1_sym [of s isdecimal g] s unfolding digit_def by blast
  have a1: "rmatch (seq [Many1 digit, lit ''.'', Many1 digit]) (s, g)
         = rmatch (Cat (lit ''.'') (Many1 digit)) (?rs, g)"
    by (rule rmatch_decimal_alt [OF s])
  show ?thesis
  proof (cases "\<exists>d r. ?rs = CHR ''.'' # d # r \<and> isdecimal d")
    case True
    then obtain d r where d: "?rs = CHR ''.'' # d # r" "isdecimal d" by blast
    then have tok: "numeric_token s = ?ip @ CHR ''.'' # takeWhile isdecimal (d # r)"
      using ip by (simp add: numeric_token_def Let_def)
    obtain r1 where "rmatch (Cat (lit ''.'') (Many1 digit)) (?rs, g)
        = (dropWhile isdecimal (d # r), g) # r1"
      using rmatch_dot_digits [OF d(2), of r g] d(1) by auto
    with a1 have h: "rmatch (Alt (seq [Many1 digit, lit ''.'', Many1 digit]) (Many1 digit)) (s, g)
        = (dropWhile isdecimal (d # r), g) # (r1 @ rmatch (Many1 digit) (s, g))"
      by (simp del: rmatch.simps(3,5) lit.simps seq.simps)
    have "s = ?ip @ ?rs" by simp
    then have dec: "s = numeric_token s @ dropWhile isdecimal (d # r)"
      using d(1) tok
      by (metis append.assoc append_Cons takeWhile_dropWhile_id)
    then have "drop (length (numeric_token s)) s = dropWhile isdecimal (d # r)"
      by (metis append_eq_conv_conj)
    moreover have "take (length s - length (dropWhile isdecimal (d # r))) s = numeric_token s"
      using dec take_diff_append by metis
    ultimately show ?thesis using h unfolding number_re_def
      by (simp del: rmatch.simps(3,4,5) lit.simps seq.simps dropWhile.simps takeWhile.simps)
  next
    case False
    then have tok: "numeric_token s = ?ip"
      using ip by (auto simp: numeric_token_def Let_def split: list.splits)
    from False have "rmatch (Cat (lit ''.'') (Many1 digit)) (?rs, g) = []"
      by (rule rmatch_dot_digits_nil)
    with a1 r2 have h: "rmatch (Alt (seq [Many1 digit, lit ''.'', Many1 digit]) (Many1 digit)) (s, g)
        = (?rs, g) # r2"
      by (simp del: rmatch.simps(3,5) lit.simps seq.simps)
    have dec: "s = numeric_token s @ ?rs" using tok by simp
    then have "drop (length (numeric_token s)) s = ?rs"
      by (metis append_eq_conv_conj)
    moreover have "take (length s - length ?rs) s = numeric_token s"
      using dec take_diff_append by metis
    ultimately show ?thesis using h unfolding number_re_def
      by (simp del: rmatch.simps(3,4,5) lit.simps seq.simps)
  qed
qed

lemma rationality_score_re_number:
  "rationality_score_re = Cat (lit score_marker) (Cat (lit '' '') number_re)"
  by (simp add: rationality_score_re_def number_re_def)

lemma prefix_append_drop:
  "prefix (m @ n) s \<longleftrightarrow> prefix m s \<and> prefix n (drop (length m) s)"
  by (metis append_eq_conv_conj prefix_def append.assoc)

lemma rmatch_rationality_score_re:
  "rmatch rationality_score_re (s, g) =
     (if prefix (score_marker @ '' '') s
      then rmatch number_re (drop (length (score_marker @ '' '')) s, g) else [])"
  unfolding rationality_score_re_number
  by (simp add: rmatch_lit prefix_append_drop del: rmatch.simps(5,7) lit.simps)

lemma search_rationality_score_re:
  "map_option group1 (search rationality_score_re s) = map_option Some (find_score s)"
proof (induction s)
  case Nil
  have "\<not> prefix (score_marker @ '' '') []" by (simp add: score_marker_def)
  then show ?case by (simp add: rmatch_rationality_score_re del: rmatch.simps)
next
  case (Cons c cs)
  let ?q = "drop (length (score_marker @ '' '')) (c # cs)"
  show ?case
  proof (cases "prefix (score_marker @ '' '') (c # cs) \<and> numeric_token ?q \<noteq> []")
    case True
    then obtain rest where "rmatch number_re (?q, None)
        = (drop (length (numeric_token ?q)) ?q, Some (numeric_token ?q)) # rest"
      using rmatch_number_re [of ?q None] by blast
    with True show ?thesis
      by (simp add: rmatch_rationality_score_re group1_def del: rmatch.simps)
  next
    case False
    then have "rmatch rationality_score_re (c # cs, None) = []"
      using rmatch_number_re_nil [of ?q None]
      by (auto simp: rmatch_rationality_score_re simp del: rmatch.simps)
    with False Cons.IH show ?thesis by (auto simp del: rmatch.simps)
  qed
qed

lemma takeWhile_all: "list_all P xs \<Longrightarrow> takeWhile P (xs @ ys) = xs @ takeWhile P ys"
  by (induction xs) auto

lemma dropWhile_all: "list_all P xs \<Longrightarrow> dropWhile P (xs @ ys) = dropWhile P ys"
  by (induction xs) auto

lemma list_all_takeWhile: "list_all P (takeWhile P xs)"
  by (induction xs) auto

lemma py_float_numeric_token:
  assumes "numeric_token s \<noteq> []"
  shows "\<exists>x. py_float (numeric_token s) = Some x \<and> 0 \<le> x"
proof -
  let ?ip = "takeWhile isdecimal s" and ?rs = "dropWhile isdecimal s"
  from assms have ip: "?ip \<noteq> []" by (auto simp: numeric_token_def Let_def)
  have all: "list_all isdecimal ?ip" by (rule list_all_takeWhile)
  show ?thesis
  proof (cases "\<exists>d r. ?rs = CHR ''.'' # d # r \<and> isdecimal d")
    case True
    then obtain d r where d: "?rs = CHR ''.'' # d # r" "isdecimal d" by blast
    let ?fp = "takeWhile isdecimal (d # r)"
    have tok: "numeric_token s = ?ip @ CHR ''.'' # ?fp"
      using ip d by (simp add: numeric_token_def Let_def)
    have nd: "\<not> isdecimal CHR ''.''" by (simp add: isdecimal_def)
    have t: "takeWhile isdecimal (?ip @ CHR ''.'' # ?fp) = ?ip"
      using takeWhile_all [OF all, of "CHR ''.'' # ?fp"] nd by simp
    have dr: "dropWhile isdecimal (?ip @ CHR ''.'' # ?fp) = CHR ''.'' # ?fp"
      using dropWhile_all [OF all, of "CHR ''.'' # ?fp"] nd by simp
    have fp: "?fp \<noteq> []" "list_all isdecimal ?fp"
      using d(2) list_all_takeWhile [of isdecimal "d # r"] by auto
    have "py_float (numeric_token s)
        = Some (of_nat (decimal_value ?ip) + of_nat (decimal_value ?fp) / 10 ^ length ?fp)"
      unfolding tok py_float_def Let_def t dr using ip fp by simp
    then show ?thesis by simp
  next
    case False
    then have tok: "numeric_token s = ?ip"
      using ip by (auto simp: numeric_token_def Let_def split: list.splits)
    have t: "takeWhile isdecimal ?ip = ?ip" "dropWhile isdecimal ?ip = []"
      using takeWhile_all [OF all, of "[]"] dropWhile_all [OF all, of "[]"] by simp_all
    have "py_float (numeric_token s) = Some (of_nat (decimal_value ?ip))"
      unfolding tok py_float_def Let_def t using ip by simp
    then show ?thesis by simp
  qed
qed

lemma find_score_token: "find_score s = Some t \<Longrightarrow> \<exists>q. t = numeric_token q \<and> t \<noteq> []"
  by (induction s) (auto split: if_splits)

lemma score_field_default: "find_score s = None \<Longrightarrow> score_field s = Inr (1 / 2)"
  using search_rationality_score_re [of s] by (simp add: score_field_def)

lemma score_field_token:
  assumes "find_score s = Some t"
  shows "\<exists>x. py_float t = Some x \<and> 0 \<le> x \<and> score_field s = Inr x"
proof -
  from assms obtain q where q: "t = numeric_token q" "t \<noteq> []" using find_score_token by blast
  then obtain x where x: "py_float t = Some x" "0 \<le> x" using py_float_numeric_token by blast
  from assms search_rationality_score_re [of s]
  obtain m where "search rationality_score_re s = Some m" "group1 m = Some t" by auto
  with x show ?thesis by (simp add: score_field_def)
qed

lemma score_field_total: "\<exists>x. score_field s = Inr x \<and> 0 \<le> x"
proof (cases "find_score s")
  case None
  then have "score_field s = Inr (1 / 2) \<and> (0::rat) \<le> 1 / 2"
    using score_field_default by simp
  then show ?thesis by blast
next
  case (Some t)
  then show ?thesis using score_field_token by blast
qed

section \<open>The search vocabulary and the fields of the result\<close>

text \<open>
  \<open>after_first\<close> and \<open>before_first\<close> cut a text at the first occurrence of a marker, and
  \<open>evaluate_argument_fields\<close> gives the four fields of every result in these terms.
\<close>

lemma after_first_None_iff: "after_first m s = None \<longleftrightarrow> \<not> sublist m s"
  by (induction s) (auto simp: sublist_Cons_right)

lemma after_first_decomp: "after_first m s = Some q \<Longrightarrow> s = before_first m s @ m @ q"
proof (induction s)
  case Nil
  then show ?case by (simp split: if_splits)
next
  case (Cons c cs)
  show ?case
  proof (cases "prefix m (c # cs)")
    case True
    with Cons.prems have "q = drop (length m) (c # cs)" by simp
    with True show ?thesis by (metis append_eq_conv_conj prefix_def before_first.simps(2) append_Nil)
  next
    case False
    with Cons show ?thesis by simp
  qed
qed

lemma before_first_absent: "\<not> sublist m s \<Longrightarrow> before_first m s = s"
  by (induction s) (auto simp: sublist_Cons_right)

lemma before_first_minimal: "i < length (before_first m s) \<Longrightarrow> \<not> prefix m (drop i s)"
proof (induction s arbitrary: i)
  case Nil
  then show ?case by simp
next
  case (Cons c cs)
  then show ?case by (cases i) (auto split: if_splits)
qed

lemma find_score_shape:
  "find_score s = Some t \<Longrightarrow>
   \<exists>p d q. s = p @ score_marker @ '' '' @ d # q \<and> isdecimal d"
proof (induction s)
  case Nil
  then show ?case by simp
next
  case (Cons c cs)
  let ?q = "drop (length (score_marker @ '' '')) (c # cs)"
  show ?case
  proof (cases "prefix (score_marker @ '' '') (c # cs) \<and> numeric_token ?q \<noteq> []")
    case True
    then have "takeWhile isdecimal ?q \<noteq> []" by (auto simp: numeric_token_def Let_def)
    then obtain d q where dq: "?q = d # q" "isdecimal d"
      by (cases ?q) (auto split: if_splits)
    from True have "c # cs = (score_marker @ '' '') @ ?q"
      by (metis append_eq_conv_conj prefix_def)
    with dq have "c # cs = [] @ score_marker @ '' '' @ d # q" by simp
    with dq(2) show ?thesis by blast
  next
    case False
    with Cons.prems have "find_score cs = Some t" by auto
    with Cons.IH obtain p d q where "cs = p @ score_marker @ '' '' @ d # q" "isdecimal d"
      by blast
    then have "c # cs = (c # p) @ score_marker @ '' '' @ d # q \<and> isdecimal d" by simp
    then show ?thesis by blast
  qed
qed

lemma find_score_absent: "\<not> sublist score_marker s \<Longrightarrow> find_score s = None"
proof -
  assume n: "\<not> sublist score_marker s"
  show ?thesis
  proof (cases "find_score s")
    case None
    then show ?thesis .
  next
    case (Some t)
    then obtain p d q where "s = p @ score_marker @ ('' '' @ d # q)"
      using find_score_shape by blast
    then have "sublist score_marker s" by (metis sublist_appendI)
    with n show ?thesis by simp
  qed
qed

lemma evaluate_argument_fields:
  "score_field s = Inr x \<Longrightarrow>
   evaluate_argument s =
     Inr \<lparr>rationality_score = x,
          reason_for_score =
            (case after_first reasoning_marker s of
               None \<Rightarrow> ''No reasoning provided.''
             | Some q \<Rightarrow> strip (before_first feedback_marker q)),
          feedback =
            (case after_first feedback_marker s of
               None \<Rightarrow> ''No feedback provided.''
             | Some q \<Rightarrow> strip (before_first improved_marker q)),
          improved_argument =
            (case after_first improved_marker s of
               None \<Rightarrow> ''No improved argument provided.''
             | Some q \<Rightarrow> strip q)\<rparr>"
  by (simp add: evaluate_argument_def reason_for_score_field feedback_field
        improved_argument_field)

lemma prefix_append_short: "prefix m (a @ b) \<Longrightarrow> length m \<le> length a \<Longrightarrow> prefix m a"
  by (metis prefix_length_prefix prefix_def)

lemma after_first_prefix: "prefix m s \<Longrightarrow> after_first m s = Some (drop (length m) s)"
  by (cases s) auto

lemma after_first_at:
  "before_first m (p @ m) = p \<Longrightarrow> after_first m (p @ m @ x) = Some x"
proof (induction p)
  case Nil
  show ?case using after_first_prefix [of m "m @ x"] by simp
next
  case (Cons h p)
  from Cons.prems have np: "\<not> prefix m (h # p @ m)" and b: "before_first m (p @ m) = p"
    by (auto split: if_splits)
  have "\<not> prefix m (h # p @ m @ x)"
  proof
    assume "prefix m (h # p @ m @ x)"
    then have "prefix m ((h # p @ m) @ x)" by simp
    moreover have "length m \<le> length (h # p @ m)" by simp
    ultimately have "prefix m (h # p @ m)" by (rule prefix_append_short)
    with np show False by simp
  qed
  with Cons.IH [OF b] show ?case by simp
qed

lemma before_first_here:
  "before_first m (p @ m @ x) = p \<Longrightarrow> before_first m (p @ m) = p"
proof (induction p)
  case Nil
  show ?case by (cases m) auto
next
  case (Cons h p)
  from Cons.prems have np: "\<not> prefix m (h # p @ m @ x)" and b: "before_first m (p @ m @ x) = p"
    by (auto split: if_splits)
  have "\<not> prefix m (h # p @ m)"
    using np by (metis append_Cons append.assoc prefix_prefix)
  with Cons.IH [OF b] show ?case by simp
qed

lemma after_first_split:
  "s = p @ m @ x \<Longrightarrow> before_first m s = p \<Longrightarrow> after_first m s = Some x"
  using after_first_at before_first_here by blast

lemma before_first_suffix:
  "before_first m (x @ y) = x @ z \<Longrightarrow> before_first m y = z"
  by (induction x) (auto split: if_splits)

lemma find_score_here:
  assumes "numeric_token q \<noteq> []"
  shows "find_score (score_marker @ '' '' @ q) = Some (numeric_token q)"
proof -
  obtain c cs where c: "score_marker @ '' '' @ q = c # cs" by (simp add: score_marker_def)
  have "prefix (score_marker @ '' '') (c # cs)"
    using c by (metis append.assoc prefix_def)
  moreover have "drop (length (score_marker @ '' '')) (c # cs) = q"
    using c by (metis append.assoc append_eq_conv_conj)
  ultimately have "find_score (c # cs) = Some (numeric_token q)" using assms by simp
  with c show ?thesis by simp
qed

lemma find_score_at_first:
  assumes "numeric_token q \<noteq> []"
  shows "before_first score_marker (a @ score_marker @ '' '' @ q) = a \<Longrightarrow>
         find_score (a @ score_marker @ '' '' @ q) = Some (numeric_token q)"
proof (induction a)
  case Nil
  show ?case using find_score_here [OF assms] by simp
next
  case (Cons h a)
  from Cons.prems have np: "\<not> prefix score_marker (h # a @ score_marker @ '' '' @ q)"
    and b: "before_first score_marker (a @ score_marker @ '' '' @ q) = a"
    by (auto split: if_splits)
  from np have "\<not> prefix (score_marker @ '' '') (h # a @ score_marker @ '' '' @ q)"
    using append_prefixD by blast
  with Cons.IH [OF b] show ?case by simp
qed

lemma dropWhile_all_nil: "list_all P xs \<Longrightarrow> dropWhile P xs = []"
  by (induction xs) auto

lemma strip_spaces: "list_all isspace ws \<Longrightarrow> strip ws = []"
  by (simp add: strip_def dropWhile_all_nil del: dropWhile_eq_Nil_conv)

lemma before_first_prefix: "prefix (before_first t q) q"
  by (induction q) auto

lemma list_all_prefix: "prefix xs ys \<Longrightarrow> list_all P ys \<Longrightarrow> list_all P xs"
  by (auto simp: prefix_def)

lemma strip_before_first_spaces: "list_all isspace ws \<Longrightarrow> strip (before_first t ws) = []"
  using before_first_prefix list_all_prefix strip_spaces by blast

lemma strip_leading_spaces: "list_all isspace ws \<Longrightarrow> strip (ws @ t) = strip ws @ strip t"
proof -
  assume a: "list_all isspace ws"
  then have "dropWhile isspace (ws @ t) = dropWhile isspace t" by (rule dropWhile_all)
  then show ?thesis using strip_spaces [OF a] by (simp add: strip_def)
qed

lemma before_first_leading_spaces:
  assumes "t \<noteq> []" "\<not> isspace (hd t)" "list_all isspace ws"
  shows "before_first t (ws @ q) = ws @ before_first t q"
  using assms(3)
proof (induction ws)
  case Nil
  show ?case by simp
next
  case (Cons w ws)
  then have "isspace w" by simp
  with assms(1,2) have "\<not> prefix t (w # ws @ q)" by (cases t) auto
  with Cons show ?case by simp
qed

lemma occurrences_prefix: "prefix m s \<Longrightarrow> 1 \<le> occurrences m s"
  by (cases s) auto

lemma occurrences_pos: "1 \<le> occurrences m (p @ m @ x)"
proof (induction p)
  case Nil
  show ?case using occurrences_prefix [of m "m @ x"] by simp
next
  case (Cons h p)
  then show ?case by simp
qed

lemma occurrence_unique:
  "occurrences m s = 1 \<Longrightarrow> s = p @ m @ x \<Longrightarrow> s = p' @ m @ x' \<Longrightarrow> p = p'"
proof (induction s arbitrary: p p')
  case Nil
  then show ?case by simp
next
  case (Cons c cs)
  show ?case
  proof (cases p)
    case pn: Nil
    show ?thesis
    proof (cases p')
      case Nil
      with pn show ?thesis by simp
    next
      case (Cons h t)
      with Cons.prems(3) have "cs = t @ m @ x'" by simp
      then have "1 \<le> occurrences m cs" using occurrences_pos by simp
      moreover have "prefix m (c # cs)" using Cons.prems(2) pn by simp
      ultimately show ?thesis using Cons.prems(1) by simp
    qed
  next
    case pc: (Cons h t)
    with Cons.prems(2) have cs: "cs = t @ m @ x" by simp
    then have ge: "1 \<le> occurrences m cs" using occurrences_pos by simp
    show ?thesis
    proof (cases p')
      case Nil
      then have "prefix m (c # cs)" using Cons.prems(3) by simp
      with ge show ?thesis using Cons.prems(1) by simp
    next
      case (Cons h' t')
      with Cons.prems(3) have cs': "cs = t' @ m @ x'" "h' = c" by simp_all
      from pc Cons.prems(2) have "h = c" by simp
      from ge Cons.prems(1) have "occurrences m cs = 1" by (simp split: if_splits)
      from Cons.IH [OF this cs cs'(1)] have "t = t'" .
      with pc Cons \<open>h = c\<close> cs'(2) show ?thesis by simp
    qed
  qed
qed

lemma find_score_none:
  "\<forall>d. isdecimal d \<longrightarrow> \<not> sublist (score_marker @ '' '' @ [d]) s \<Longrightarrow> find_score s = None"
proof (rule ccontr)
  assume h: "\<forall>d. isdecimal d \<longrightarrow> \<not> sublist (score_marker @ '' '' @ [d]) s"
  assume "find_score s \<noteq> None"
  then obtain t where "find_score s = Some t" by blast
  then obtain p d q where s: "s = p @ score_marker @ '' '' @ d # q" "isdecimal d"
    using find_score_shape by blast
  then have "s = p @ (score_marker @ '' '' @ [d]) @ q" by simp
  then have "sublist (score_marker @ '' '' @ [d]) s" by (metis sublist_appendI)
  with h s(2) show False by blast
qed

lemma score_of_field:
  "score_field s = Inr x \<Longrightarrow> \<exists>r. evaluate_argument s = Inr r \<and> rationality_score r = x"
  using evaluate_argument_fields [of s x] by simp

lemma takeWhile_all_id: "list_all P xs \<Longrightarrow> takeWhile P xs = xs"
  by (induction xs) auto

lemma py_float_token:
  assumes "py_float t = Some x"
  shows "numeric_token t = t \<and> t \<noteq> []"
proof -
  let ?ip = "takeWhile isdecimal t" and ?rs = "dropWhile isdecimal t"
  from assms have ip: "?ip \<noteq> []" by (auto simp: py_float_def Let_def split: if_splits)
  have t: "t = ?ip @ ?rs" by simp
  show ?thesis
  proof (cases ?rs)
    case Nil
    with t have "t = ?ip" by simp
    moreover have "numeric_token t = ?ip"
      using ip Nil by (simp add: numeric_token_def Let_def del: dropWhile_eq_Nil_conv)
    ultimately show ?thesis using ip by auto
  next
    case (Cons c fp)
    with assms ip have c: "c = CHR ''.''" "fp \<noteq> []" "list_all isdecimal fp"
      by (auto simp: py_float_def Let_def split: if_splits)
    then obtain d r where fp: "fp = d # r" "isdecimal d" by (cases fp) auto
    have "takeWhile isdecimal (d # r) = d # r" using c(3) fp(1) takeWhile_all_id by blast
    then have "numeric_token t = ?ip @ CHR ''.'' # d # r"
      using ip Cons c(1) fp by (simp add: numeric_token_def Let_def)
    moreover have "t = ?ip @ CHR ''.'' # d # r" using t Cons c(1) fp(1) by simp
    ultimately show ?thesis by auto
  qed
qed

lemma takeWhile_append_stop:
  "y \<noteq> [] \<Longrightarrow> \<not> P (hd y) \<Longrightarrow> takeWhile P (u @ y) = takeWhile P u"
  by (induction u) (auto simp: takeWhile_eq_Nil_iff neq_Nil_conv)

lemma dropWhile_append_stop:
  "y \<noteq> [] \<Longrightarrow> \<not> P (hd y) \<Longrightarrow> dropWhile P (u @ y) = dropWhile P u @ y"
  by (induction u) (auto simp: neq_Nil_conv)

lemma numeric_token_append:
  assumes "y \<noteq> []" "\<not> isdecimal (hd y)" "hd y \<noteq> CHR ''.''"
  shows "numeric_token (b @ y) = numeric_token b"
proof -
  let ?ip = "takeWhile isdecimal b" and ?rs = "dropWhile isdecimal b"
  from assms obtain h y' where y: "y = h # y'" "\<not> isdecimal h" "h \<noteq> CHR ''.''"
    by (cases y) auto
  have t: "takeWhile isdecimal (b @ y) = ?ip" "dropWhile isdecimal (b @ y) = ?rs @ y"
    using takeWhile_append_stop [of y isdecimal b] dropWhile_append_stop [of y isdecimal b]
      assms(1,2)
    by simp_all
  show ?thesis
  proof (cases ?rs)
    case Nil
    then show ?thesis
      unfolding numeric_token_def Let_def t using y
      by (cases y') (simp_all del: dropWhile_eq_Nil_conv)
  next
    case (Cons c r)
    show ?thesis
    proof (cases r)
      case Nil
      with Cons show ?thesis unfolding numeric_token_def Let_def t using y by simp
    next
      case (Cons d r')
      have "takeWhile isdecimal (r' @ y) = takeWhile isdecimal r'"
        using takeWhile_append_stop [of y isdecimal r'] assms(1,2) by simp
      with Cons \<open>?rs = c # r\<close> show ?thesis
        unfolding numeric_token_def Let_def t by simp
    qed
  qed
qed

lemma py_float_chars:
  assumes "py_float t = Some x"
  shows "\<forall>c \<in> set t. isdecimal c \<or> c = CHR ''.''"
proof -
  let ?ip = "takeWhile isdecimal t" and ?rs = "dropWhile isdecimal t"
  have t: "t = ?ip @ ?rs" by simp
  have ip: "\<forall>c \<in> set ?ip. isdecimal c" using set_takeWhileD by fastforce
  show ?thesis
  proof (cases ?rs)
    case Nil
    with t have "t = ?ip" by simp
    with ip show ?thesis by metis
  next
    case (Cons c fp)
    with assms have c: "c = CHR ''.''" "list_all isdecimal fp"
      by (auto simp: py_float_def Let_def split: if_splits)
    then have "\<forall>c \<in> set (c # fp). isdecimal c \<or> c = CHR ''.''"
      by (auto simp: list_all_iff)
    with ip Cons have "\<forall>c \<in> set (?ip @ ?rs). isdecimal c \<or> c = CHR ''.''" by auto
    with t show ?thesis by metis
  qed
qed

lemma score_only_no_text_marker:
  assumes "py_float t = Some x"
  shows "\<not> sublist reasoning_marker (score_marker @ '' '' @ t)"
    and "\<not> sublist feedback_marker (score_marker @ '' '' @ t)"
    and "\<not> sublist improved_marker (score_marker @ '' '' @ t)"
proof -
  have c: "\<forall>c \<in> set t. isdecimal c \<or> c = CHR ''.''" using assms by (rule py_float_chars)
  have n: "\<not> isdecimal CHR ''g''" "\<not> isdecimal CHR ''F''" "\<not> isdecimal CHR ''p''"
    by (simp_all add: isdecimal_def)
  have "CHR ''g'' \<notin> set t" "CHR ''F'' \<notin> set t" "CHR ''p'' \<notin> set t"
    using c n by blast+
  moreover have "CHR ''g'' \<notin> set (score_marker @ '' '')"
    "CHR ''F'' \<notin> set (score_marker @ '' '')" "CHR ''p'' \<notin> set (score_marker @ '' '')"
    by (simp_all add: score_marker_def)
  ultimately have g: "CHR ''g'' \<notin> set (score_marker @ '' '' @ t)"
    "CHR ''F'' \<notin> set (score_marker @ '' '' @ t)"
    "CHR ''p'' \<notin> set (score_marker @ '' '' @ t)"
    by simp_all
  have m: "CHR ''g'' \<in> set reasoning_marker" "CHR ''F'' \<in> set feedback_marker"
    "CHR ''p'' \<in> set improved_marker"
    by (simp_all add: reasoning_marker_def feedback_marker_def improved_marker_def)
  show "\<not> sublist reasoning_marker (score_marker @ '' '' @ t)"
    using g(1) m(1) set_mono_sublist by blast
  show "\<not> sublist feedback_marker (score_marker @ '' '' @ t)"
    using g(2) m(2) set_mono_sublist by blast
  show "\<not> sublist improved_marker (score_marker @ '' '' @ t)"
    using g(3) m(3) set_mono_sublist by blast
qed

lemma score_only_reply:
  assumes "py_float t = Some x"
  shows "evaluate_argument (score_marker @ '' '' @ t) =
     Inr \<lparr>rationality_score = x, reason_for_score = ''No reasoning provided.'',
          feedback = ''No feedback provided.'',
          improved_argument = ''No improved argument provided.''\<rparr>"
proof -
  from assms have t: "numeric_token t = t" "numeric_token t \<noteq> []"
    using py_float_token by auto
  have "find_score (score_marker @ '' '' @ t) = Some t"
    using find_score_here [OF t(2)] t(1) by simp
  then obtain y where "py_float t = Some y" "score_field (score_marker @ '' '' @ t) = Inr y"
    using score_field_token by blast
  with assms have x: "score_field (score_marker @ '' '' @ t) = Inr x" by simp
  have a: "after_first reasoning_marker (score_marker @ '' '' @ t) = None"
    "after_first feedback_marker (score_marker @ '' '' @ t) = None"
    "after_first improved_marker (score_marker @ '' '' @ t) = None"
    using score_only_no_text_marker [OF assms] by (simp_all add: after_first_None_iff)
  show ?thesis unfolding evaluate_argument_fields [OF x] a by simp
qed

section \<open>Properties of the extraction\<close>

text \<open>
  C1.  The extraction never raises: on every reply text it returns a record of the four
  fields.  A field whose marker does not occur in the text holds its fixed fallback value:
  0.5 for the score, and the sentences \<open>No reasoning provided.\<close>, \<open>No feedback provided.\<close> and
  \<open>No improved argument provided.\<close> for the three texts.
\<close>

theorem extraction_total_with_fallbacks:
  "\<exists>r. evaluate_argument s = Inr r \<and>
     (\<not> sublist score_marker s \<longrightarrow> rationality_score r = 1 / 2) \<and>
     (\<not> sublist reasoning_marker s \<longrightarrow> reason_for_score r = ''No reasoning provided.'') \<and>
     (\<not> sublist feedback_marker s \<longrightarrow> feedback r = ''No feedback provided.'') \<and>
     (\<not> sublist improved_marker s \<longrightarrow>
        improved_argument r = ''No improved argument provided.'')"
proof -
  obtain x where x: "score_field s = Inr x" using score_field_total by blast
  have sc: "\<not> sublist score_marker s \<longrightarrow> x = 1 / 2"
    using x score_field_default [of s] find_score_absent [of s] by auto
  have a: "\<not> sublist reasoning_marker s \<longrightarrow> after_first reasoning_marker s = None"
    "\<not> sublist feedback_marker s \<longrightarrow> after_first feedback_marker s = None"
    "\<not> sublist improved_marker s \<longrightarrow> after_first improved_marker s = None"
    by (simp_all add: after_first_None_iff)
  show ?thesis
    unfolding evaluate_argument_fields [OF x] using sc a by simp
qed

theorem extraction_total_with_fallbacks_witness:
  "\<not> sublist score_marker ''**Feedback:** Cite a source.'' \<and>
   \<not> sublist reasoning_marker ''**Feedback:** Cite a source.'' \<and>
   \<not> sublist improved_marker ''**Feedback:** Cite a source.'' \<and>
   (\<exists>r. evaluate_argument ''**Feedback:** Cite a source.'' = Inr r \<and>
        rationality_score r = 1 / 2 \<and>
        reason_for_score r = ''No reasoning provided.'' \<and>
        improved_argument r = ''No improved argument provided.'')"
proof -
  have h: "\<not> sublist score_marker ''**Feedback:** Cite a source.''"
    "\<not> sublist reasoning_marker ''**Feedback:** Cite a source.''"
    "\<not> sublist improved_marker ''**Feedback:** Cite a source.''"
    by code_simp+
  from extraction_total_with_fallbacks [of "''**Feedback:** Cite a source.''"] h
  show ?thesis by blast
qed

text \<open>
  C4.  On the empty reply text all four fields hold their fallback values, the score being
  0.5.
\<close>

theorem empty_reply_gives_defaults:
  "evaluate_argument [] =
     Inr \<lparr>rationality_score = 1 / 2, reason_for_score = ''No reasoning provided.'',
          feedback = ''No feedback provided.'',
          improved_argument = ''No improved argument provided.''\<rparr>"
  by code_simp

text \<open>
  C8.  The score is never negative: on every reply text the extraction returns a record
  whose score is at least 0.  The pattern takes unsigned numerals only, so a reply with a
  negative number after the marker, \<open>**Rationality Score:** -0.5\<close>, gets the fallback 0.5.
\<close>

theorem score_never_negative:
  "(\<exists>r. evaluate_argument s = Inr r \<and> 0 \<le> rationality_score r) \<and>
   (\<exists>r. evaluate_argument ''**Rationality Score:** -0.5'' = Inr r \<and>
        rationality_score r = 1 / 2)"
proof
  obtain x where x: "score_field s = Inr x" "0 \<le> x" using score_field_total by blast
  show "\<exists>r. evaluate_argument s = Inr r \<and> 0 \<le> rationality_score r"
    unfolding evaluate_argument_fields [OF x(1)] using x(2) by simp
  have "evaluate_argument ''**Rationality Score:** -0.5'' =
     Inr \<lparr>rationality_score = 1 / 2, reason_for_score = ''No reasoning provided.'',
          feedback = ''No feedback provided.'',
          improved_argument = ''No improved argument provided.''\<rparr>"
    by code_simp
  then show "\<exists>r. evaluate_argument ''**Rationality Score:** -0.5'' = Inr r \<and>
        rationality_score r = 1 / 2"
    by simp
qed

text \<open>
  C3.  On the sample reply of the specification the four fields are 0.9, \<open>Good logic\<close>,
  \<open>Add evidence\<close> and \<open>Refined text.\<close>  The group of the score pattern holds the numeral
  \<open>0.9\<close>, whose value is nine tenths.
\<close>

theorem sample_reply_fields:
  "evaluate_argument
     ''**Rationality Score:** 0.9  **Reasoning for Score:** Good logic **Feedback:** Add evidence **Improved Argument:** Refined text.'' =
   Inr \<lparr>rationality_score = 9 / 10, reason_for_score = ''Good logic'',
        feedback = ''Add evidence'', improved_argument = ''Refined text.''\<rparr>"
  by code_simp

text \<open>
  C5, the reply made of the score marker and a numeral with nothing between them.  The
  reply \<open>**Rationality Score:**0.8\<close> consists only of the marker followed by a decimal
  numeral, and \<open>float\<close> reads that numeral as 0.8, but the score is the fallback 0.5: the
  score pattern wants one space between the marker and the digits.
\<close>

theorem score_only_glued_counterexample:
  "evaluate_argument ''**Rationality Score:**0.8'' =
     Inr \<lparr>rationality_score = 1 / 2, reason_for_score = ''No reasoning provided.'',
          feedback = ''No feedback provided.'',
          improved_argument = ''No improved argument provided.''\<rparr> \<and>
   py_float ''0.8'' = Some (4 / 5)"
  by code_simp

text \<open>
  C5, as it holds.  A reply that is only the score marker, exactly one space and a decimal
  numeral, such as \<open>**Rationality Score:** 0.8\<close>, gets the number of the numeral as its score
  (0.8 there) and the three fallback texts.  Whenever no occurrence of the score marker is
  followed by a space and a digit, and so in particular whenever the marker does not
  occur, the score is the fallback 0.5.
\<close>

theorem score_only_reply_and_fallback:
  "evaluate_argument ''**Rationality Score:** 0.8'' =
     Inr \<lparr>rationality_score = 4 / 5, reason_for_score = ''No reasoning provided.'',
          feedback = ''No feedback provided.'',
          improved_argument = ''No improved argument provided.''\<rparr> \<and>
   (py_float t = Some x \<longrightarrow>
      evaluate_argument (score_marker @ '' '' @ t) =
        Inr \<lparr>rationality_score = x, reason_for_score = ''No reasoning provided.'',
             feedback = ''No feedback provided.'',
             improved_argument = ''No improved argument provided.''\<rparr>) \<and>
   ((\<forall>d. isdecimal d \<longrightarrow> \<not> sublist (score_marker @ '' '' @ [d]) s) \<longrightarrow>
      (\<exists>r. evaluate_argument s = Inr r \<and> rationality_score r = 1 / 2)) \<and>
   (\<not> sublist score_marker s \<longrightarrow>
      (\<exists>r. evaluate_argument s = Inr r \<and> rationality_score r = 1 / 2))"
proof (intro conjI impI)
  show "evaluate_argument ''**Rationality Score:** 0.8'' =
     Inr \<lparr>rationality_score = 4 / 5, reason_for_score = ''No reasoning provided.'',
          feedback = ''No feedback provided.'',
          improved_argument = ''No improved argument provided.''\<rparr>"
    by code_simp
next
  assume "py_float t = Some x"
  then show "evaluate_argument (score_marker @ '' '' @ t) =
        Inr \<lparr>rationality_score = x, reason_for_score = ''No reasoning provided.'',
             feedback = ''No feedback provided.'',
             improved_argument = ''No improved argument provided.''\<rparr>"
    by (rule score_only_reply)
next
  assume "\<forall>d. isdecimal d \<longrightarrow> \<not> sublist (score_marker @ '' '' @ [d]) s"
  then have "score_field s = Inr (1 / 2)" using find_score_none score_field_default by blast
  then show "\<exists>r. evaluate_argument s = Inr r \<and> rationality_score r = 1 / 2"
    by (rule score_of_field)
next
  assume "\<not> sublist score_marker s"
  then have "score_field s = Inr (1 / 2)" using find_score_absent score_field_default by blast
  then show "\<exists>r. evaluate_argument s = Inr r \<and> rationality_score r = 1 / 2"
    by (rule score_of_field)
qed

theorem score_only_reply_and_fallback_witness:
  "py_float ''0.25'' = Some (1 / 4) \<and>
   evaluate_argument (score_marker @ '' '' @ ''0.25'') =
     Inr \<lparr>rationality_score = 1 / 4, reason_for_score = ''No reasoning provided.'',
          feedback = ''No feedback provided.'',
          improved_argument = ''No improved argument provided.''\<rparr> \<and>
   (\<exists>r. evaluate_argument ''**Rationality Score:** high'' = Inr r \<and>
        rationality_score r = 1 / 2) \<and>
   \<not> sublist score_marker ''Score: 0.7'' \<and>
   (\<exists>r. evaluate_argument ''Score: 0.7'' = Inr r \<and> rationality_score r = 1 / 2)"
proof -
  have h0: "py_float ''0.25'' = Some (1 / 4)" by code_simp
  have h1: "\<forall>d. isdecimal d \<longrightarrow>
      \<not> sublist (score_marker @ '' '' @ [d]) ''**Rationality Score:** high''"
    by (simp add: isdecimal_def score_marker_def sublist_Cons_right)
  have h2: "\<not> sublist score_marker ''Score: 0.7''" by code_simp
  from score_only_reply_and_fallback [of "''0.25''" "1 / 4" "''**Rationality Score:** high''"]
    score_only_reply_and_fallback [of "''0.25''" "1 / 4" "''Score: 0.7''"] h0 h1 h2
  show ?thesis by blast
qed

text \<open>
  C7.  The bound [0, 1] is not enforced: the reply \<open>**Rationality Score:** 7.5\<close> gets a score
  greater than 1.  Every numeral that \<open>float\<close> reads, written after the marker and one
  space, is returned with its own value.
\<close>

theorem score_bound_not_enforced:
  "(\<exists>r. evaluate_argument ''**Rationality Score:** 7.5'' = Inr r \<and>
        1 < rationality_score r) \<and>
   (py_float t = Some x \<longrightarrow>
      (\<exists>r. evaluate_argument (score_marker @ '' '' @ t) = Inr r \<and> rationality_score r = x))"
proof (intro conjI impI)
  have "evaluate_argument ''**Rationality Score:** 7.5'' =
     Inr \<lparr>rationality_score = 15 / 2, reason_for_score = ''No reasoning provided.'',
          feedback = ''No feedback provided.'',
          improved_argument = ''No improved argument provided.''\<rparr>"
    by code_simp
  then show "\<exists>r. evaluate_argument ''**Rationality Score:** 7.5'' = Inr r \<and>
      1 < rationality_score r"
    by simp
next
  assume x: "py_float t = Some x"
  then have t: "numeric_token t = t" "numeric_token t \<noteq> []" using py_float_token by auto
  have "find_score (score_marker @ '' '' @ t) = Some t"
    using find_score_here [OF t(2)] t(1) by simp
  then obtain y where "py_float t = Some y" "score_field (score_marker @ '' '' @ t) = Inr y"
    using score_field_token by blast
  with x have "score_field (score_marker @ '' '' @ t) = Inr x" by simp
  then show "\<exists>r. evaluate_argument (score_marker @ '' '' @ t) = Inr r \<and>
      rationality_score r = x"
    by (rule score_of_field)
qed

theorem score_bound_not_enforced_witness:
  "py_float ''42'' = Some 42 \<and>
   (\<exists>r. evaluate_argument (score_marker @ '' '' @ ''42'') = Inr r \<and>
        rationality_score r = 42)"
proof -
  have h: "py_float ''42'' = Some 42" by code_simp
  from score_bound_not_enforced [of "''42''" 42] h show ?thesis by blast
qed

text \<open>
  C9.  A fallback sentence stands for a missing marker, not for an empty section.  When the
  first occurrence of the marker of a text field is followed by nothing but whitespace up
  to the end of the reply, the field is the empty string; on the reply \<open>**Feedback:**\<close> the
  feedback is empty and the other fields hold their fallbacks.
\<close>

theorem empty_section_gives_empty_text:
  assumes "list_all isspace ws"
  shows
  "(s = p @ reasoning_marker @ ws \<and> before_first reasoning_marker s = p \<longrightarrow>
      (\<exists>r. evaluate_argument s = Inr r \<and> reason_for_score r = [])) \<and>
   (s = p @ feedback_marker @ ws \<and> before_first feedback_marker s = p \<longrightarrow>
      (\<exists>r. evaluate_argument s = Inr r \<and> feedback r = [])) \<and>
   (s = p @ improved_marker @ ws \<and> before_first improved_marker s = p \<longrightarrow>
      (\<exists>r. evaluate_argument s = Inr r \<and> improved_argument r = [])) \<and>
   evaluate_argument ''**Feedback:**'' =
     Inr \<lparr>rationality_score = 1 / 2, reason_for_score = ''No reasoning provided.'',
          feedback = [], improved_argument = ''No improved argument provided.''\<rparr>"
proof -
  obtain x where x: "score_field s = Inr x" using score_field_total by blast
  note e = evaluate_argument_fields [OF x]
  have 1: "s = p @ reasoning_marker @ ws \<and> before_first reasoning_marker s = p \<longrightarrow>
      (\<exists>r. evaluate_argument s = Inr r \<and> reason_for_score r = [])"
  proof
    assume "s = p @ reasoning_marker @ ws \<and> before_first reasoning_marker s = p"
    then have "after_first reasoning_marker s = Some ws" using after_first_split by blast
    then show "\<exists>r. evaluate_argument s = Inr r \<and> reason_for_score r = []"
      unfolding e using strip_before_first_spaces [OF assms] by simp
  qed
  have 2: "s = p @ feedback_marker @ ws \<and> before_first feedback_marker s = p \<longrightarrow>
      (\<exists>r. evaluate_argument s = Inr r \<and> feedback r = [])"
  proof
    assume "s = p @ feedback_marker @ ws \<and> before_first feedback_marker s = p"
    then have "after_first feedback_marker s = Some ws" using after_first_split by blast
    then show "\<exists>r. evaluate_argument s = Inr r \<and> feedback r = []"
      unfolding e using strip_before_first_spaces [OF assms] by simp
  qed
  have 3: "s = p @ improved_marker @ ws \<and> before_first improved_marker s = p \<longrightarrow>
      (\<exists>r. evaluate_argument s = Inr r \<and> improved_argument r = [])"
  proof
    assume "s = p @ improved_marker @ ws \<and> before_first improved_marker s = p"
    then have "after_first improved_marker s = Some ws" using after_first_split by blast
    then show "\<exists>r. evaluate_argument s = Inr r \<and> improved_argument r = []"
      unfolding e using strip_spaces [OF assms] by simp
  qed
  have 4: "evaluate_argument ''**Feedback:**'' =
     Inr \<lparr>rationality_score = 1 / 2, reason_for_score = ''No reasoning provided.'',
          feedback = [], improved_argument = ''No improved argument provided.''\<rparr>"
    by code_simp
  from 1 2 3 4 show ?thesis by blast
qed

theorem empty_section_gives_empty_text_witness:
  "(\<exists>r. evaluate_argument ''Score 3 **Reasoning for Score:**  '' = Inr r \<and>
        reason_for_score r = []) \<and>
   (\<exists>r. evaluate_argument ''**Feedback:**'' = Inr r \<and> feedback r = []) \<and>
   (\<exists>r. evaluate_argument ''Fine. **Improved Argument:**'' = Inr r \<and>
        improved_argument r = [])"
proof -
  have w: "list_all isspace ''  ''" "list_all isspace []" by code_simp+
  have a: "''Score 3 **Reasoning for Score:**  '' = ''Score 3 '' @ reasoning_marker @ ''  ''"
    "before_first reasoning_marker ''Score 3 **Reasoning for Score:**  '' = ''Score 3 ''"
    by code_simp+
  have b: "''**Feedback:**'' = [] @ feedback_marker @ []"
    "before_first feedback_marker ''**Feedback:**'' = []"
    by code_simp+
  have c: "''Fine. **Improved Argument:**'' = ''Fine. '' @ improved_marker @ []"
    "before_first improved_marker ''Fine. **Improved Argument:**'' = ''Fine. ''"
    by code_simp+
  from empty_section_gives_empty_text
         [OF w(1), of "''Score 3 **Reasoning for Score:**  ''" "''Score 3 ''"] a
  have 1: "\<exists>r. evaluate_argument ''Score 3 **Reasoning for Score:**  '' = Inr r \<and>
        reason_for_score r = []"
    by blast
  from empty_section_gives_empty_text [OF w(2), of "''**Feedback:**''" "[]"] b
  have 2: "\<exists>r. evaluate_argument ''**Feedback:**'' = Inr r \<and> feedback r = []"
    by blast
  from empty_section_gives_empty_text
         [OF w(2), of "''Fine. **Improved Argument:**''" "''Fine. ''"] c
  have 3: "\<exists>r. evaluate_argument ''Fine. **Improved Argument:**'' = Inr r \<and>
        improved_argument r = []"
    by blast
  from 1 2 3 show ?thesis by blast
qed

text \<open>
  C6.  When the markers of the three text fields all occur, in whatever order, no field
  falls back: each is the trimmed text from the end of the first occurrence of its own
  marker up to the next occurrence of the marker that ends it (the feedback marker for the
  reasoning, the improved-argument marker for the feedback), or up to the end of the reply
  when that marker does not follow; the improved argument always runs to the end.
\<close>

theorem fields_are_forward_spans:
  assumes "sublist reasoning_marker s" "sublist feedback_marker s" "sublist improved_marker s"
  shows
  "\<exists>r q2 q3 q4.
     evaluate_argument s = Inr r \<and>
     after_first reasoning_marker s = Some q2 \<and>
     reason_for_score r = strip (before_first feedback_marker q2) \<and>
     after_first feedback_marker s = Some q3 \<and>
     feedback r = strip (before_first improved_marker q3) \<and>
     after_first improved_marker s = Some q4 \<and>
     improved_argument r = strip q4"
proof -
  obtain x where x: "score_field s = Inr x" using score_field_total by blast
  from assms obtain q2 q3 q4 where q:
    "after_first reasoning_marker s = Some q2"
    "after_first feedback_marker s = Some q3"
    "after_first improved_marker s = Some q4"
    using after_first_None_iff by (metis option.exhaust)
  show ?thesis
    unfolding evaluate_argument_fields [OF x] using q by simp
qed

theorem fields_are_forward_spans_witness:
  "sublist reasoning_marker
     ''**Improved Argument:** C **Feedback:** B **Reasoning for Score:** A **Rationality Score:** 0.4'' \<and>
   sublist feedback_marker
     ''**Improved Argument:** C **Feedback:** B **Reasoning for Score:** A **Rationality Score:** 0.4'' \<and>
   sublist improved_marker
     ''**Improved Argument:** C **Feedback:** B **Reasoning for Score:** A **Rationality Score:** 0.4'' \<and>
   (\<exists>r. evaluate_argument
          ''**Improved Argument:** C **Feedback:** B **Reasoning for Score:** A **Rationality Score:** 0.4'' = Inr r \<and>
        reason_for_score r = ''A **Rationality Score:** 0.4'' \<and>
        feedback r = ''B **Reasoning for Score:** A **Rationality Score:** 0.4'' \<and>
        improved_argument r = ''C **Feedback:** B **Reasoning for Score:** A **Rationality Score:** 0.4'')"
proof -
  let ?s = "''**Improved Argument:** C **Feedback:** B **Reasoning for Score:** A **Rationality Score:** 0.4''"
  have h: "sublist reasoning_marker ?s" "sublist feedback_marker ?s"
    "sublist improved_marker ?s"
    by code_simp+
  have a: "after_first reasoning_marker ?s = Some '' A **Rationality Score:** 0.4''"
    "after_first feedback_marker ?s = Some '' B **Reasoning for Score:** A **Rationality Score:** 0.4''"
    "after_first improved_marker ?s = Some '' C **Feedback:** B **Reasoning for Score:** A **Rationality Score:** 0.4''"
    by code_simp+
  have b: "strip (before_first feedback_marker '' A **Rationality Score:** 0.4'')
       = ''A **Rationality Score:** 0.4''"
    "strip (before_first improved_marker '' B **Reasoning for Score:** A **Rationality Score:** 0.4'')
       = ''B **Reasoning for Score:** A **Rationality Score:** 0.4''"
    "strip '' C **Feedback:** B **Reasoning for Score:** A **Rationality Score:** 0.4''
       = ''C **Feedback:** B **Reasoning for Score:** A **Rationality Score:** 0.4''"
    by code_simp+
  from fields_are_forward_spans [OF h] a b have
    "\<exists>r. evaluate_argument ?s = Inr r \<and> reason_for_score r = ''A **Rationality Score:** 0.4'' \<and>
        feedback r = ''B **Reasoning for Score:** A **Rationality Score:** 0.4'' \<and>
        improved_argument r = ''C **Feedback:** B **Reasoning for Score:** A **Rationality Score:** 0.4''"
    by auto
  with h show ?thesis by blast
qed

text \<open>
  C2, the score of a reply in the expected layout.  The four markers occur once each and in
  the expected order, and the numeral \<open>0.9\<close> comes right after the score marker, with no
  space between them.  The three texts are the trimmed sections, but the score is the
  fallback 0.5 and not the number written after the marker: the score pattern wants one
  space between the marker and the digits.
\<close>

theorem ordered_markers_score_counterexample:
  "evaluate_argument
     ''**Rationality Score:**0.9 **Reasoning for Score:** A **Feedback:** B **Improved Argument:** C'' =
   Inr \<lparr>rationality_score = 1 / 2, reason_for_score = ''A'', feedback = ''B'',
        improved_argument = ''C''\<rparr> \<and>
   py_float ''0.9'' = Some (9 / 10)"
  by code_simp

text \<open>
  C2, as it holds.  A reply in the expected layout: the four markers occur in the order
  score, reasoning, feedback, improved argument, each of the shown occurrences being the
  first occurrence of its marker in the reply, and the score marker is followed by exactly
  one space and a text \<open>b\<close> that starts with a numeral.  Then the score is the number read
  from that numeral, and each text field is exactly the text between its marker and the
  next marker (the end of the reply for the last field), with the surrounding whitespace
  removed.
\<close>

theorem ordered_markers_give_sections:
  assumes s: "s = a @ score_marker @ '' '' @ b @ reasoning_marker @ c @
                  feedback_marker @ d @ improved_marker @ e"
    and f1: "before_first score_marker s = a"
    and f2: "before_first reasoning_marker s = a @ score_marker @ '' '' @ b"
    and f3: "before_first feedback_marker s =
               a @ score_marker @ '' '' @ b @ reasoning_marker @ c"
    and f4: "before_first improved_marker s =
               a @ score_marker @ '' '' @ b @ reasoning_marker @ c @ feedback_marker @ d"
    and tok: "numeric_token b \<noteq> []"
  shows "\<exists>x. py_float (numeric_token b) = Some x \<and>
           evaluate_argument s =
             Inr \<lparr>rationality_score = x, reason_for_score = strip c,
                  feedback = strip d, improved_argument = strip e\<rparr>"
proof -
  let ?y = "reasoning_marker @ c @ feedback_marker @ d @ improved_marker @ e"
  have y: "?y \<noteq> []" "\<not> isdecimal (hd ?y)" "hd ?y \<noteq> CHR ''.''"
    by (simp_all add: reasoning_marker_def isdecimal_def)
  have nt: "numeric_token (b @ ?y) = numeric_token b"
    using y by (rule numeric_token_append)
  have "before_first score_marker (a @ score_marker @ '' '' @ (b @ ?y)) = a"
    using f1 s by simp
  then have "find_score (a @ score_marker @ '' '' @ (b @ ?y)) = Some (numeric_token (b @ ?y))"
    using tok nt find_score_at_first [of "b @ ?y" a] by simp
  then have "find_score s = Some (numeric_token b)" using s nt by simp
  then obtain x where x: "py_float (numeric_token b) = Some x" "score_field s = Inr x"
    using score_field_token by blast
  have s2: "s = (a @ score_marker @ '' '' @ b) @ reasoning_marker @
                (c @ feedback_marker @ d @ improved_marker @ e)"
    using s by simp
  have a2: "after_first reasoning_marker s =
              Some (c @ feedback_marker @ d @ improved_marker @ e)"
    using after_first_split [OF s2 f2] .
  have "before_first feedback_marker
          ((a @ score_marker @ '' '' @ b @ reasoning_marker) @
           (c @ feedback_marker @ d @ improved_marker @ e))
        = (a @ score_marker @ '' '' @ b @ reasoning_marker) @ c"
    using f3 s by simp
  then have b2: "before_first feedback_marker (c @ feedback_marker @ d @ improved_marker @ e) = c"
    by (rule before_first_suffix)
  have s3: "s = (a @ score_marker @ '' '' @ b @ reasoning_marker @ c) @ feedback_marker @
                (d @ improved_marker @ e)"
    using s by simp
  have a3: "after_first feedback_marker s = Some (d @ improved_marker @ e)"
    using after_first_split [OF s3 f3] .
  have "before_first improved_marker
          ((a @ score_marker @ '' '' @ b @ reasoning_marker @ c @ feedback_marker) @
           (d @ improved_marker @ e))
        = (a @ score_marker @ '' '' @ b @ reasoning_marker @ c @ feedback_marker) @ d"
    using f4 s by simp
  then have b3: "before_first improved_marker (d @ improved_marker @ e) = d"
    by (rule before_first_suffix)
  have s4: "s = (a @ score_marker @ '' '' @ b @ reasoning_marker @ c @ feedback_marker @ d) @
                improved_marker @ e"
    using s by simp
  have a4: "after_first improved_marker s = Some e"
    using after_first_split [OF s4 f4] .
  have "evaluate_argument s =
             Inr \<lparr>rationality_score = x, reason_for_score = strip c,
                  feedback = strip d, improved_argument = strip e\<rparr>"
    unfolding evaluate_argument_fields [OF x(2)] a2 a3 a4 using b2 b3 by simp
  with x(1) show ?thesis by blast
qed

theorem ordered_markers_give_sections_witness:
  "\<exists>x. py_float (numeric_token ''0.9  '') = Some x \<and>
     evaluate_argument
       ([] @ score_marker @ '' '' @ ''0.9  '' @ reasoning_marker @ '' Good logic '' @
        feedback_marker @ '' Add evidence '' @ improved_marker @ '' Refined text.'') =
       Inr \<lparr>rationality_score = x, reason_for_score = strip '' Good logic '',
            feedback = strip '' Add evidence '',
            improved_argument = strip '' Refined text.''\<rparr>"
proof -
  let ?s = "[] @ score_marker @ '' '' @ ''0.9  '' @ reasoning_marker @ '' Good logic '' @
        feedback_marker @ '' Add evidence '' @ improved_marker @ '' Refined text.''"
  have f: "before_first score_marker ?s = []"
    "before_first reasoning_marker ?s = [] @ score_marker @ '' '' @ ''0.9  ''"
    "before_first feedback_marker ?s =
       [] @ score_marker @ '' '' @ ''0.9  '' @ reasoning_marker @ '' Good logic ''"
    "before_first improved_marker ?s =
       [] @ score_marker @ '' '' @ ''0.9  '' @ reasoning_marker @ '' Good logic '' @
       feedback_marker @ '' Add evidence ''"
    by code_simp+
  have t: "numeric_token ''0.9  '' \<noteq> []" by code_simp
  show ?thesis
    by (rule ordered_markers_give_sections [OF refl f t])
qed

text \<open>
  C10.  The number after the score marker is taken only across exactly one space, while a
  text field takes its section across any run of whitespace.

  For the score: a result other than the fallback 0.5 comes from an occurrence of the score
  marker followed by one space and a digit; when every occurrence of the marker is followed
  by a run of whitespace other than a single space (none at all, two or more spaces, a tab,
  a newline) and then a digit, the score is the fallback 0.5; and when the first occurrence
  of the marker is followed by one space and a numeral, the score is the number of that
  numeral.  So \<open>**Rationality Score:** 0.8\<close> gives 0.8, and the same reply with no space, two
  spaces, a tab or a newline in place of the space gives 0.5.

  For the texts: whatever run of whitespace \<open>ws\<close>, empty or not, stands between the first
  occurrence of the marker of a field and the text \<open>t\<close> after it, the field is the trimmed
  section of \<open>t\<close>: \<open>t\<close> up to the marker that ends the field, or all of \<open>t\<close>.  So
  \<open>**Feedback:**\<close> followed by a newline, a tab and \<open>Sound.\<close> gives the feedback \<open>Sound.\<close>,
  and so does \<open>**Feedback:**Sound.\<close>
\<close>

theorem score_needs_one_space_texts_do_not:
  "((\<exists>r. evaluate_argument s = Inr r \<and> rationality_score r \<noteq> 1 / 2) \<longrightarrow>
      (\<exists>a d q. s = a @ score_marker @ '' '' @ d # q \<and> isdecimal d)) \<and>
   ((\<forall>a x. s = a @ score_marker @ x \<longrightarrow>
        (\<exists>sep d q. x = sep @ d # q \<and> list_all isspace sep \<and> sep \<noteq> '' '' \<and> isdecimal d))
      \<longrightarrow> (\<exists>r. evaluate_argument s = Inr r \<and> rationality_score r = 1 / 2)) \<and>
   (before_first score_marker (p @ score_marker @ '' '' @ t) = p \<and> numeric_token t \<noteq> [] \<longrightarrow>
      (\<exists>r x. evaluate_argument (p @ score_marker @ '' '' @ t) = Inr r \<and>
             py_float (numeric_token t) = Some x \<and> rationality_score r = x)) \<and>
   (list_all isspace ws \<and> before_first reasoning_marker (p @ reasoning_marker) = p \<longrightarrow>
      (\<exists>r. evaluate_argument (p @ reasoning_marker @ ws @ t) = Inr r \<and>
           reason_for_score r = strip (before_first feedback_marker t))) \<and>
   (list_all isspace ws \<and> before_first feedback_marker (p @ feedback_marker) = p \<longrightarrow>
      (\<exists>r. evaluate_argument (p @ feedback_marker @ ws @ t) = Inr r \<and>
           feedback r = strip (before_first improved_marker t))) \<and>
   (list_all isspace ws \<and> before_first improved_marker (p @ improved_marker) = p \<longrightarrow>
      (\<exists>r. evaluate_argument (p @ improved_marker @ ws @ t) = Inr r \<and>
           improved_argument r = strip t)) \<and>
   (\<exists>r. evaluate_argument ''**Rationality Score:** 0.8'' = Inr r \<and>
        rationality_score r = 4 / 5) \<and>
   (\<exists>r. evaluate_argument ''**Rationality Score:**0.8'' = Inr r \<and>
        rationality_score r = 1 / 2) \<and>
   (\<exists>r. evaluate_argument ''**Rationality Score:**  0.8'' = Inr r \<and>
        rationality_score r = 1 / 2) \<and>
   (\<exists>r. evaluate_argument (''**Rationality Score:**'' @ [CHR 0x09] @ ''0.8'') = Inr r \<and>
        rationality_score r = 1 / 2) \<and>
   (\<exists>r. evaluate_argument (''**Rationality Score:**'' @ [CHR 0x0A] @ ''0.8'') = Inr r \<and>
        rationality_score r = 1 / 2) \<and>
   (\<exists>r. evaluate_argument (''**Feedback:**'' @ [CHR 0x0A, CHR 0x09] @ ''Sound.'') = Inr r \<and>
        feedback r = ''Sound.'') \<and>
   (\<exists>r. evaluate_argument ''**Feedback:**Sound.'' = Inr r \<and> feedback r = ''Sound.'')"
proof (intro conjI impI)
  assume "\<exists>r. evaluate_argument s = Inr r \<and> rationality_score r \<noteq> 1 / 2"
  then obtain r where r: "evaluate_argument s = Inr r" "rationality_score r \<noteq> 1 / 2" by blast
  have "find_score s \<noteq> None"
  proof
    assume "find_score s = None"
    then have "score_field s = Inr (1 / 2)" by (rule score_field_default)
    then obtain r' where "evaluate_argument s = Inr r'" "rationality_score r' = 1 / 2"
      using score_of_field by blast
    with r show False by simp
  qed
  then obtain tk where "find_score s = Some tk" by blast
  then show "\<exists>a d q. s = a @ score_marker @ '' '' @ d # q \<and> isdecimal d"
    by (rule find_score_shape)
next
  assume h: "\<forall>a x. s = a @ score_marker @ x \<longrightarrow>
        (\<exists>sep d q. x = sep @ d # q \<and> list_all isspace sep \<and> sep \<noteq> '' '' \<and> isdecimal d)"
  have "find_score s = None"
  proof (rule ccontr)
    assume "find_score s \<noteq> None"
    then obtain tk where "find_score s = Some tk" by blast
    then obtain p' d' q' where s': "s = p' @ score_marker @ ('' '' @ d' # q')" "isdecimal d'"
      using find_score_shape by blast
    with h obtain sep d q where
      e: "'' '' @ d' # q' = sep @ d # q" "list_all isspace sep" "sep \<noteq> '' ''" "isdecimal d"
      by blast
    have nd: "\<not> isspace d'" "\<not> isdecimal CHR '' ''"
      using s'(2) by (auto simp: isdecimal_def isspace_def)
    show False
    proof (cases sep)
      case Nil
      with e nd show ?thesis by simp
    next
      case (Cons u us)
      show ?thesis
      proof (cases us)
        case Nil
        with Cons e show ?thesis by simp
      next
        case (Cons v vs)
        with \<open>sep = u # us\<close> e nd show ?thesis by simp
      qed
    qed
  qed
  then have "score_field s = Inr (1 / 2)" by (rule score_field_default)
  then show "\<exists>r. evaluate_argument s = Inr r \<and> rationality_score r = 1 / 2"
    by (rule score_of_field)
next
  assume h: "before_first score_marker (p @ score_marker @ '' '' @ t) = p \<and>
    numeric_token t \<noteq> []"
  then have "find_score (p @ score_marker @ '' '' @ t) = Some (numeric_token t)"
    using find_score_at_first [of t p] by blast
  then obtain x where x: "py_float (numeric_token t) = Some x"
    "score_field (p @ score_marker @ '' '' @ t) = Inr x"
    using score_field_token by blast
  from score_of_field [OF x(2)] x(1)
  show "\<exists>r x. evaluate_argument (p @ score_marker @ '' '' @ t) = Inr r \<and>
             py_float (numeric_token t) = Some x \<and> rationality_score r = x"
    by blast
next
  assume h: "list_all isspace ws \<and> before_first reasoning_marker (p @ reasoning_marker) = p"
  then have w: "list_all isspace ws" by simp
  obtain x where x: "score_field (p @ reasoning_marker @ ws @ t) = Inr x"
    using score_field_total by blast
  have a: "after_first reasoning_marker (p @ reasoning_marker @ ws @ t) = Some (ws @ t)"
    using h after_first_at by blast
  have "before_first feedback_marker (ws @ t) = ws @ before_first feedback_marker t"
    by (rule before_first_leading_spaces) (simp_all add: feedback_marker_def isspace_def w)
  then have "strip (before_first feedback_marker (ws @ t))
      = strip (before_first feedback_marker t)"
    using strip_leading_spaces [OF w] strip_spaces [OF w] by simp
  then show "\<exists>r. evaluate_argument (p @ reasoning_marker @ ws @ t) = Inr r \<and>
           reason_for_score r = strip (before_first feedback_marker t)"
    unfolding evaluate_argument_fields [OF x] a by simp
next
  assume h: "list_all isspace ws \<and> before_first feedback_marker (p @ feedback_marker) = p"
  then have w: "list_all isspace ws" by simp
  obtain x where x: "score_field (p @ feedback_marker @ ws @ t) = Inr x"
    using score_field_total by blast
  have a: "after_first feedback_marker (p @ feedback_marker @ ws @ t) = Some (ws @ t)"
    using h after_first_at by blast
  have "before_first improved_marker (ws @ t) = ws @ before_first improved_marker t"
    by (rule before_first_leading_spaces) (simp_all add: improved_marker_def isspace_def w)
  then have "strip (before_first improved_marker (ws @ t))
      = strip (before_first improved_marker t)"
    using strip_leading_spaces [OF w] strip_spaces [OF w] by simp
  then show "\<exists>r. evaluate_argument (p @ feedback_marker @ ws @ t) = Inr r \<and>
           feedback r = strip (before_first improved_marker t)"
    unfolding evaluate_argument_fields [OF x] a by simp
next
  assume h: "list_all isspace ws \<and> before_first improved_marker (p @ improved_marker) = p"
  then have w: "list_all isspace ws" by simp
  obtain x where x: "score_field (p @ improved_marker @ ws @ t) = Inr x"
    using score_field_total by blast
  have a: "after_first improved_marker (p @ improved_marker @ ws @ t) = Some (ws @ t)"
    using h after_first_at by blast
  have "strip (ws @ t) = strip t"
    using strip_leading_spaces [OF w] strip_spaces [OF w] by simp
  then show "\<exists>r. evaluate_argument (p @ improved_marker @ ws @ t) = Inr r \<and>
           improved_argument r = strip t"
    unfolding evaluate_argument_fields [OF x] a by simp
next
  have "evaluate_argument ''**Rationality Score:** 0.8'' =
     Inr \<lparr>rationality_score = 4 / 5, reason_for_score = ''No reasoning provided.'',
          feedback = ''No feedback provided.'',
          improved_argument = ''No improved argument provided.''\<rparr>"
    by code_simp
  then show "\<exists>r. evaluate_argument ''**Rationality Score:** 0.8'' = Inr r \<and>
        rationality_score r = 4 / 5"
    by simp
next
  have "evaluate_argument ''**Rationality Score:**0.8'' =
     Inr \<lparr>rationality_score = 1 / 2, reason_for_score = ''No reasoning provided.'',
          feedback = ''No feedback provided.'',
          improved_argument = ''No improved argument provided.''\<rparr>"
    by code_simp
  then show "\<exists>r. evaluate_argument ''**Rationality Score:**0.8'' = Inr r \<and>
        rationality_score r = 1 / 2"
    by simp
next
  have "evaluate_argument ''**Rationality Score:**  0.8'' =
     Inr \<lparr>rationality_score = 1 / 2, reason_for_score = ''No reasoning provided.'',
          feedback = ''No feedback provided.'',
          improved_argument = ''No improved argument provided.''\<rparr>"
    by code_simp
  then show "\<exists>r. evaluate_argument ''**Rationality Score:**  0.8'' = Inr r \<and>
        rationality_score r = 1 / 2"
    by simp
next
  have "evaluate_argument (''**Rationality Score:**'' @ [CHR 0x09] @ ''0.8'') =
     Inr \<lparr>rationality_score = 1 / 2, reason_for_score = ''No reasoning provided.'',
          feedback = ''No feedback provided.'',
          improved_argument = ''No improved argument provided.''\<rparr>"
    by code_simp
  then show "\<exists>r. evaluate_argument (''**Rationality Score:**'' @ [CHR 0x09] @ ''0.8'') = Inr r \<and>
        rationality_score r = 1 / 2"
    by simp
next
  have "evaluate_argument (''**Rationality Score:**'' @ [CHR 0x0A] @ ''0.8'') =
     Inr \<lparr>rationality_score = 1 / 2, reason_for_score = ''No reasoning provided.'',
          feedback = ''No feedback provided.'',
          improved_argument = ''No improved argument provided.''\<rparr>"
    by code_simp
  then show "\<exists>r. evaluate_argument (''**Rationality Score:**'' @ [CHR 0x0A] @ ''0.8'') = Inr r \<and>
        rationality_score r = 1 / 2"
    by simp
next
  have "evaluate_argument (''**Feedback:**'' @ [CHR 0x0A, CHR 0x09] @ ''Sound.'') =
     Inr \<lparr>rationality_score = 1 / 2, reason_for_score = ''No reasoning provided.'',
          feedback = ''Sound.'',
          improved_argument = ''No improved argument provided.''\<rparr>"
    by code_simp
  then show "\<exists>r. evaluate_argument (''**Feedback:**'' @ [CHR 0x0A, CHR 0x09] @ ''Sound.'') = Inr r \<and>
        feedback r = ''Sound.''"
    by simp
next
  have "evaluate_argument ''**Feedback:**Sound.'' =
     Inr \<lparr>rationality_score = 1 / 2, reason_for_score = ''No reasoning provided.'',
          feedback = ''Sound.'',
          improved_argument = ''No improved argument provided.''\<rparr>"
    by code_simp
  then show "\<exists>r. evaluate_argument ''**Feedback:**Sound.'' = Inr r \<and> feedback r = ''Sound.''"
    by simp
qed

theorem score_needs_one_space_texts_do_not_witness:
  "(\<exists>a d q. ''Note **Rationality Score:** 0.8'' = a @ score_marker @ '' '' @ d # q \<and>
        isdecimal d) \<and>
   (\<exists>r. evaluate_argument ''**Rationality Score:**  0.8'' = Inr r \<and>
        rationality_score r = 1 / 2) \<and>
   (\<exists>r. evaluate_argument (''Note '' @ score_marker @ '' '' @ ''0.8 or so'') = Inr r \<and>
        rationality_score r = 4 / 5) \<and>
   (\<exists>r. evaluate_argument (''Well. '' @ reasoning_marker @ ''  '' @ ''Sound. **Feedback:** Go'')
          = Inr r \<and>
        reason_for_score r = ''Sound.'') \<and>
   (\<exists>r. evaluate_argument (''Well. '' @ feedback_marker @ ''  '' @ ''Sound. '') = Inr r \<and>
        feedback r = ''Sound.'') \<and>
   (\<exists>r. evaluate_argument (''Well. '' @ improved_marker @ [] @ ''Sound.'') = Inr r \<and>
        improved_argument r = ''Sound.'')"
proof -
  note main = score_needs_one_space_texts_do_not
  have 1: "\<exists>a d q. ''Note **Rationality Score:** 0.8'' = a @ score_marker @ '' '' @ d # q \<and>
        isdecimal d"
  proof -
    have "evaluate_argument ''Note **Rationality Score:** 0.8'' =
       Inr \<lparr>rationality_score = 4 / 5, reason_for_score = ''No reasoning provided.'',
            feedback = ''No feedback provided.'',
            improved_argument = ''No improved argument provided.''\<rparr>"
      by code_simp
    then have "\<exists>r. evaluate_argument ''Note **Rationality Score:** 0.8'' = Inr r \<and>
        rationality_score r \<noteq> 1 / 2"
      by simp
    with main [of "''Note **Rationality Score:** 0.8''"] show ?thesis by blast
  qed
  have 2: "\<exists>r. evaluate_argument ''**Rationality Score:**  0.8'' = Inr r \<and>
        rationality_score r = 1 / 2"
  proof -
    let ?s = "''**Rationality Score:**  0.8''"
    have o: "occurrences score_marker ?s = 1" by code_simp
    have s0: "?s = [] @ score_marker @ ''  0.8''" by code_simp
    have h: "\<forall>a x. ?s = a @ score_marker @ x \<longrightarrow>
        (\<exists>sep d q. x = sep @ d # q \<and> list_all isspace sep \<and> sep \<noteq> '' '' \<and> isdecimal d)"
    proof (intro allI impI)
      fix a x
      assume e: "?s = a @ score_marker @ x"
      have "a = []" using occurrence_unique [OF o e s0] .
      with e s0 have x: "x = ''  '' @ CHR ''0'' # ''.8''" by simp
      have "list_all isspace ''  ''" "''  '' \<noteq> '' ''" "isdecimal CHR ''0''" by code_simp+
      with x show "\<exists>sep d q. x = sep @ d # q \<and> list_all isspace sep \<and> sep \<noteq> '' '' \<and>
          isdecimal d"
        by blast
    qed
    with main [of ?s] show ?thesis by blast
  qed
  have 3: "\<exists>r. evaluate_argument (''Note '' @ score_marker @ '' '' @ ''0.8 or so'') = Inr r \<and>
        rationality_score r = 4 / 5"
  proof -
    have b: "before_first score_marker (''Note '' @ score_marker @ '' '' @ ''0.8 or so'')
        = ''Note ''"
      "numeric_token ''0.8 or so'' \<noteq> []"
      "py_float (numeric_token ''0.8 or so'') = Some (4 / 5)"
      by code_simp+
    from main [of _ "''Note ''" "''0.8 or so''"] b(1,2)
    obtain r x where "evaluate_argument (''Note '' @ score_marker @ '' '' @ ''0.8 or so'') = Inr r"
      "py_float (numeric_token ''0.8 or so'') = Some x" "rationality_score r = x"
      by blast
    with b(3) show ?thesis by simp
  qed
  have w: "list_all isspace ''  ''" "list_all isspace []" by code_simp+
  have f: "before_first reasoning_marker (''Well. '' @ reasoning_marker) = ''Well. ''"
    "before_first feedback_marker (''Well. '' @ feedback_marker) = ''Well. ''"
    "before_first improved_marker (''Well. '' @ improved_marker) = ''Well. ''"
    by code_simp+
  have v: "strip (before_first feedback_marker ''Sound. **Feedback:** Go'') = ''Sound.''"
    "strip (before_first improved_marker ''Sound. '') = ''Sound.''"
    "strip ''Sound.'' = ''Sound.''"
    by code_simp+
  have 4: "\<exists>r. evaluate_argument
          (''Well. '' @ reasoning_marker @ ''  '' @ ''Sound. **Feedback:** Go'') = Inr r \<and>
        reason_for_score r = ''Sound.''"
    using main [of _ "''Well. ''" "''Sound. **Feedback:** Go''" "''  ''"] w(1) f(1) v(1)
    by auto
  have 5: "\<exists>r. evaluate_argument (''Well. '' @ feedback_marker @ ''  '' @ ''Sound. '') = Inr r \<and>
        feedback r = ''Sound.''"
    using main [of _ "''Well. ''" "''Sound. ''" "''  ''"] w(1) f(2) v(2)
    by auto
  have 6: "\<exists>r. evaluate_argument (''Well. '' @ improved_marker @ [] @ ''Sound.'') = Inr r \<and>
        improved_argument r = ''Sound.''"
    using main [of _ "''Well. ''" "''Sound.''" "[]"] w(2) f(3) v(3)
    by auto
  from 1 2 3 4 5 6 show ?thesis by blast
qed

end
